theory Spec2Isabelle
  imports Main
begin

text \<open>
  A model of \<^verbatim>\<open>RMQService\<close> (\<^verbatim>\<open>src/lib/rmq.service.ts\<close>): topic matching, the
  connection handlers, \<^verbatim>\<open>send\<close> and \<^verbatim>\<open>notify\<close> with the initialization barrier, and the
  consumer that dispatches or answers inbound messages. Promises, timers, event
  emitters and channels are state; what the environment decides (when the flag is
  set, which id \<^verbatim>\<open>getUniqId\<close> returns, the clock, how a publish ends, what arrives and
  when a timer fires) is an argument or an event.
\<close>

section \<open>JavaScript values, objects and exceptions\<close>

text \<open>
  The values that travel in message properties, in the publish options and in the
  service options. Numbers are the integers (timeouts and timestamps are whole
  milliseconds). An object is the map of its own properties: the spread
  \<^verbatim>\<open>{a, b, ...options}\<close> is map override, the right operand winning, and a key whose
  value is \<^verbatim>\<open>undefined\<close> is still a key. Strings are lists of 8-bit characters.
\<close>

datatype jsval = Undefined | Null | Num int | Str string

type_synonym js_object = "string \<rightharpoonup> jsval"

fun truthy :: "jsval \<Rightarrow> bool" where
  "truthy Undefined = False"
| "truthy Null = False"
| "truthy (Num n) = (n \<noteq> 0)"
| "truthy (Str s) = (s \<noteq> [])"

text \<open>\<^verbatim>\<open>a ?? b\<close>: the right operand only when the left one is null or undefined.\<close>

definition coalesce :: "jsval \<Rightarrow> jsval \<Rightarrow> jsval" where
  "coalesce a b = (if a = Undefined \<or> a = Null then b else a)"

text \<open>\<^verbatim>\<open>obj?.key\<close> and \<^verbatim>\<open>...obj\<close> for an object that may itself be undefined.\<close>

definition optional_get :: "js_object option \<Rightarrow> string \<Rightarrow> jsval" where
  "optional_get obj k =
     (case obj of
        None \<Rightarrow> Undefined
      | Some m \<Rightarrow> (case m k of None \<Rightarrow> Undefined | Some v \<Rightarrow> v))"

definition spread :: "js_object option \<Rightarrow> js_object" where
  "spread obj = (case obj of None \<Rightarrow> Map.empty | Some m \<Rightarrow> m)"

text \<open>String conversion, as a template literal and a property key perform it.\<close>

function string_of_nat :: "nat \<Rightarrow> string" where
  "string_of_nat n =
     (if n < 10 then [''0123456789'' ! n]
      else string_of_nat (n div 10) @ [''0123456789'' ! (n mod 10)])"
  by pat_completeness auto
termination
  by (relation "measure id") auto

fun js_to_string :: "jsval \<Rightarrow> string" where
  "js_to_string Undefined = ''undefined''"
| "js_to_string Null = ''null''"
| "js_to_string (Num n) =
     (if n < 0 then CHR ''-'' # string_of_nat (nat (- n)) else string_of_nat (nat n))"
| "js_to_string (Str s) = s"

text \<open>
  What a call can throw or a returned promise can reject with, apart from the
  service's own \<^verbatim>\<open>RMQError\<close>: \<^verbatim>\<open>JSON.parse\<close> on text that is not JSON,
  \<^verbatim>\<open>Buffer.from(undefined)\<close>, a pattern outside the part of the RegExp syntax
  modelled below, and whatever a collaborator (a middleware, an interceptor, the
  channel) raises.
\<close>

datatype js_error = SyntaxError | TypeError | RegExp_outside_fragment | External string

section \<open>Node's EventEmitter\<close>

text \<open>
  The service signals through \<^verbatim>\<open>EventEmitter\<close>s. An emitter keeps, per event name,
  the listeners in the order they were added; \<^verbatim>\<open>on\<close> appends a listener and never
  looks for an equal one already there, \<^verbatim>\<open>once\<close> appends a listener that is removed when
  it is first invoked, \<^verbatim>\<open>removeAllListeners()\<close> empties the emitter. An entry is
  (event name, added by once, listener); a listener is a description of the closure
  the source registers.
\<close>

type_synonym ('e, 'l) emitter = "('e \<times> bool \<times> 'l) list"

definition emitter_on :: "('e, 'l) emitter \<Rightarrow> 'e \<Rightarrow> 'l \<Rightarrow> ('e, 'l) emitter" where
  "emitter_on em ev l = em @ [(ev, False, l)]"

definition emitter_once :: "('e, 'l) emitter \<Rightarrow> 'e \<Rightarrow> 'l \<Rightarrow> ('e, 'l) emitter" where
  "emitter_once em ev l = em @ [(ev, True, l)]"

definition removeAllListeners :: "('e, 'l) emitter \<Rightarrow> ('e, 'l) emitter" where
  "removeAllListeners em = []"

definition listeners :: "('e, 'l) emitter \<Rightarrow> 'e \<Rightarrow> (bool \<times> 'l) list" where
  "listeners em ev = map snd (filter (\<lambda>x. fst x = ev) em)"

definition listenerCount :: "('e, 'l) emitter \<Rightarrow> 'e \<Rightarrow> nat" where
  "listenerCount em ev = length (listeners em ev)"

text \<open>What the logger is given, one constructor per logging statement of the source.\<close>

datatype log_entry =
  Debug_Received string string
  | Debug_Sent string string
  | Debug_notified string string
  | Error_DISCONNECT_MESSAGE
  | Error_reason string

section \<open>Connection supervision: attachEmitters and detachEmitters\<close>

text \<open>
  \<^verbatim>\<open>attachEmitters\<close> (lines 246-256) and \<^verbatim>\<open>detachEmitters\<close> (lines 242-244).
  \<^verbatim>\<open>responseEmitter\<close> carries the handlers' outcomes to the reply pipeline. Its event
  kinds are the members of \<^verbatim>\<open>ResponseEmitterResult\<close> that the source uses; the three
  closures of \<^verbatim>\<open>attachEmitters\<close> are named after what they call.
\<close>

datatype ResponseEmitterResult = Result_success | Result_error | Result_ack

datatype response_listener = Reply_result | Reply_error | Ack_message

record supervisor =
  isConnected :: bool
  responseEmitter :: "(ResponseEmitterResult, response_listener) emitter"
  supervisor_log :: "log_entry list"

definition attachEmitters :: "supervisor \<Rightarrow> supervisor" where
  "attachEmitters s =
     s\<lparr>responseEmitter :=
         emitter_on
           (emitter_on (emitter_on (responseEmitter s) Result_success Reply_result)
              Result_error Reply_error)
           Result_ack Ack_message\<rparr>"

definition detachEmitters :: "supervisor \<Rightarrow> supervisor" where
  "detachEmitters s = s\<lparr>responseEmitter := removeAllListeners (responseEmitter s)\<rparr>"

text \<open>
  The two handlers that \<^verbatim>\<open>init\<close> installs on the connection manager (lines 74-83), and a run of
  connection events through them.
\<close>

datatype connection_event = CONNECT_EVENT | DISCONNECT_EVENT string

fun is_connect :: "connection_event \<Rightarrow> bool" where
  "is_connect CONNECT_EVENT = True"
| "is_connect (DISCONNECT_EVENT err) = False"

fun on_connection_event :: "supervisor \<Rightarrow> connection_event \<Rightarrow> supervisor" where
  "on_connection_event s CONNECT_EVENT = attachEmitters (s\<lparr>isConnected := True\<rparr>)"
| "on_connection_event s (DISCONNECT_EVENT err) =
     (let s1 = detachEmitters (s\<lparr>isConnected := False\<rparr>)
      in s1\<lparr>supervisor_log := supervisor_log s1 @ [Error_DISCONNECT_MESSAGE, Error_reason err]\<rparr>)"

definition connection_events :: "supervisor \<Rightarrow> connection_event list \<Rightarrow> supervisor" where
  "connection_events s evs = foldl on_connection_event s evs"

text \<open>The service as constructed: not connected, nothing attached.\<close>

definition new_supervisor :: supervisor where
  "new_supervisor = \<lparr>isConnected = False, responseEmitter = [], supervisor_log = []\<rparr>"

definition healthCheck :: "supervisor \<Rightarrow> bool" where
  "healthCheck s = isConnected s"

section \<open>Topic matching: getRouteByTopic\<close>

subsection \<open>The regular expressions that the source builds\<close>

text \<open>
  \<^verbatim>\<open>getRouteByTopic\<close> turns a route into the source text of a regular expression and
  hands it to \<^verbatim>\<open>String.prototype.search\<close>, which compiles it with \<^verbatim>\<open>new RegExp\<close>. The
  part of the RegExp syntax modelled here: literal characters, \<^verbatim>\<open>.\<close> (any character
  but a line terminator), the class \<^verbatim>\<open>[^.]\<close>, groups, the quantifiers \<^verbatim>\<open>+\<close> and \<^verbatim>\<open>?\<close>
  (also in their lazy form), and the anchors \<^verbatim>\<open>^\<close> and \<^verbatim>\<open>$\<close> at the two ends. Every
  other construct makes \<open>RegExp\<close> return \<open>None\<close>: the source then either raises
  SyntaxError or evaluates something this model does not cover.
\<close>

datatype atom = Lit char | Any_char | Not_dot

datatype rx = Nothing | Empty | Single atom | Or rx rx | Then rx rx | Repeat rx | Optional rx

fun atom_ok :: "atom \<Rightarrow> char \<Rightarrow> bool" where
  "atom_ok (Lit a) c = (a = c)"
| "atom_ok Any_char c = (c \<noteq> CHR 0x0A \<and> c \<noteq> CHR 0x0D)"
| "atom_ok Not_dot c = (c \<noteq> CHR ''.'')"

text \<open>Matching a whole string, by derivatives: \<open>deriv c r\<close> matches what \<open>r\<close> matches after a leading \<open>c\<close>.\<close>

fun nullable :: "rx \<Rightarrow> bool" where
  "nullable Nothing = False"
| "nullable Empty = True"
| "nullable (Single a) = False"
| "nullable (Or r s) = (nullable r \<or> nullable s)"
| "nullable (Then r s) = (nullable r \<and> nullable s)"
| "nullable (Repeat r) = nullable r"
| "nullable (Optional r) = True"

fun deriv :: "char \<Rightarrow> rx \<Rightarrow> rx" where
  "deriv c Nothing = Nothing"
| "deriv c Empty = Nothing"
| "deriv c (Single a) = (if atom_ok a c then Empty else Nothing)"
| "deriv c (Or r s) = Or (deriv c r) (deriv c s)"
| "deriv c (Then r s) =
     (if nullable r then Or (Then (deriv c r) s) (deriv c s) else Then (deriv c r) s)"
| "deriv c (Repeat r) = Then (deriv c r) (Optional (Repeat r))"
| "deriv c (Optional r) = deriv c r"

definition accepts :: "rx \<Rightarrow> string \<Rightarrow> bool" where
  "accepts r s = nullable (foldl (\<lambda>q c. deriv c q) r s)"

text \<open>
  Reading the source text of a pattern, one character at a time. \<open>p_frames\<close> holds the
  open groups, innermost first, each with its items newest first; \<open>p_cls\<close> counts the
  characters of \<^verbatim>\<open>[^.]\<close> read so far; \<open>p_rep\<close> says whether a quantifier may follow.
\<close>

datatype rep_state = No_atom | After_atom | After_quantifier

record parser =
  p_frames :: "rx list list"
  p_cls :: nat
  p_rep :: rep_state

definition seq_of :: "rx list \<Rightarrow> rx" where
  "seq_of items = foldl (\<lambda>acc x. Then x acc) Empty items"

definition push_item :: "rx \<Rightarrow> parser \<Rightarrow> parser option" where
  "push_item x p =
     (case p_frames p of
        [] \<Rightarrow> None
      | f # fs \<Rightarrow> Some (p\<lparr>p_frames := (x # f) # fs, p_rep := After_atom\<rparr>))"

definition quantify :: "(rx \<Rightarrow> rx) \<Rightarrow> parser \<Rightarrow> parser option" where
  "quantify q p =
     (case p_frames p of
        (x # f) # fs \<Rightarrow>
          if p_rep p = After_atom
          then Some (p\<lparr>p_frames := (q x # f) # fs, p_rep := After_quantifier\<rparr>)
          else None
      | _ \<Rightarrow> None)"

definition parse_char :: "parser \<Rightarrow> char \<Rightarrow> parser option" where
  "parse_char p c =
    (if p_cls p = 1 then (if c = CHR ''^'' then Some (p\<lparr>p_cls := 2\<rparr>) else None)
     else if p_cls p = 2 then (if c = CHR ''.'' then Some (p\<lparr>p_cls := 3\<rparr>) else None)
     else if p_cls p = 3 then
       (if c = CHR '']'' then push_item (Single Not_dot) (p\<lparr>p_cls := 0\<rparr>) else None)
     else if c = CHR ''('' then Some (p\<lparr>p_frames := [] # p_frames p, p_rep := No_atom\<rparr>)
     else if c = CHR '')'' then
       (case p_frames p of
          f # g # fs \<Rightarrow> Some (p\<lparr>p_frames := (seq_of f # g) # fs, p_rep := After_atom\<rparr>)
        | _ \<Rightarrow> None)
     else if c = CHR ''+'' then quantify Repeat p
     else if c = CHR ''?'' then
       (if p_rep p = After_quantifier then Some (p\<lparr>p_rep := No_atom\<rparr>)
        else quantify Optional p)
     else if c = CHR ''.'' then push_item (Single Any_char) p
     else if c = CHR ''['' then Some (p\<lparr>p_cls := 1\<rparr>)
     else if c \<in> set [CHR 0x5C, CHR ''|'', CHR ''{'', CHR ''}'', CHR '']'', CHR ''^'',
                       CHR ''$'', CHR ''*'']
       then None
     else push_item (Single (Lit c)) p)"

fun parse_chars :: "parser \<Rightarrow> string \<Rightarrow> parser option" where
  "parse_chars p [] = Some p"
| "parse_chars p (c # cs) =
     (case parse_char p c of None \<Rightarrow> None | Some p' \<Rightarrow> parse_chars p' cs)"

definition RegExp :: "string \<Rightarrow> rx option" where
  "RegExp src =
     (case src of
        [] \<Rightarrow> None
      | c # rest \<Rightarrow>
          if c = CHR ''^'' \<and> rest \<noteq> [] \<and> last rest = CHR ''$'' then
            (case parse_chars \<lparr>p_frames = [[]], p_cls = 0, p_rep = No_atom\<rparr> (butlast rest) of
               None \<Rightarrow> None
             | Some p \<Rightarrow>
                 (case p_frames p of
                    [f] \<Rightarrow> if p_cls p = 0 then Some (seq_of f) else None
                  | _ \<Rightarrow> None))
          else None)"

text \<open>
  \<^verbatim>\<open>topic.search(regexString) !== -1\<close>: with both anchors and no flag, a match is a
  match of the whole topic.
\<close>

definition search_found :: "string \<Rightarrow> string \<Rightarrow> bool option" where
  "search_found topic src =
     (case RegExp src of None \<Rightarrow> None | Some r \<Rightarrow> Some (accepts r topic))"

subsection \<open>The source's functions\<close>

text \<open>
  \<^verbatim>\<open>s.replace(/c/g, new)\<close> for a one-character pattern. The second replacement text is
  written \<^verbatim>\<open>'([^.]+\.?)+'\<close> in the source, a string literal in which \<^verbatim>\<open>\.\<close> is the
  character \<^verbatim>\<open>.\<close>, so the text that reaches the RegExp compiler is \<^verbatim>\<open>([^.]+.?)+\<close>.
\<close>

definition replace_all :: "char \<Rightarrow> string \<Rightarrow> string \<Rightarrow> string" where
  "replace_all c new s = concat (map (\<lambda>x. if x = c then new else [x]) s)"

definition regexString :: "string \<Rightarrow> string" where
  "regexString route =
     ''^'' @ replace_all (CHR ''#'') ''([^.]+.?)+'' (replace_all (CHR ''*'') ''([^.]+)'' route) @ ''$''"

text \<open>
  \<^verbatim>\<open>getRouteByTopic\<close> (lines 269-277). The callback given to \<^verbatim>\<open>find\<close>: equality first,
  the pattern only when it fails.
\<close>

definition route_matches :: "string \<Rightarrow> string \<Rightarrow> js_error + bool" where
  "route_matches topic route =
     (if route = topic then Inr True
      else (case search_found topic (regexString route) of
              None \<Rightarrow> Inl RegExp_outside_fragment
            | Some b \<Rightarrow> Inr b))"

text \<open>\<^verbatim>\<open>Array.prototype.find\<close>: the first element the callback accepts, or undefined.\<close>

fun array_find :: "('a \<Rightarrow> js_error + bool) \<Rightarrow> 'a list \<Rightarrow> js_error + 'a option" where
  "array_find f [] = Inr None"
| "array_find f (x # xs) =
     (case f x of
        Inl e \<Rightarrow> Inl e
      | Inr b \<Rightarrow> if b then Inr (Some x) else array_find f xs)"

definition getRouteByTopic :: "string list \<Rightarrow> string \<Rightarrow> js_error + string option" where
  "getRouteByTopic routes topic = array_find (route_matches topic) routes"

subsection \<open>What a pattern means, token by token\<close>

text \<open>
  A pattern is read one character at a time; each character of the pattern takes a
  piece of the topic, and the pieces in order make up the topic. \<open>token_matches\<close>
  gives the piece each character takes in the source: a segment (non-empty, without a
  dot) for \<^verbatim>\<open>*\<close>; for \<^verbatim>\<open>#\<close> a run of segments separated by single dots, which may end
  in one more dot; any one character but a line terminator for a dot; the character
  itself otherwise. \<open>claimed_token\<close> is the specification's reading: a dot and every
  other character that is not a wildcard stand for themselves, and the run that \<^verbatim>\<open>#\<close>
  takes ends with a segment.
\<close>

definition segment :: "string \<Rightarrow> bool" where
  "segment s = (s \<noteq> [] \<and> CHR ''.'' \<notin> set s)"

fun dots_apart :: "string \<Rightarrow> bool" where
  "dots_apart [] = True"
| "dots_apart [a] = True"
| "dots_apart (a # b # t) = (\<not> (a = CHR ''.'' \<and> b = CHR ''.'') \<and> dots_apart (b # t))"

definition segments_run :: "string \<Rightarrow> bool" where
  "segments_run s = (s \<noteq> [] \<and> hd s \<noteq> CHR ''.'' \<and> dots_apart s)"

definition token_matches :: "char \<Rightarrow> string \<Rightarrow> bool" where
  "token_matches c s =
     (if c = CHR ''*'' then segment s
      else if c = CHR ''#'' then segments_run s
      else if c = CHR ''.'' then
        (case s of [d] \<Rightarrow> d \<noteq> CHR 0x0A \<and> d \<noteq> CHR 0x0D | _ \<Rightarrow> False)
      else s = [c])"

definition claimed_token :: "char \<Rightarrow> string \<Rightarrow> bool" where
  "claimed_token c s =
     (if c = CHR ''*'' then segment s
      else if c = CHR ''#'' then segments_run s \<and> last s \<noteq> CHR ''.''
      else s = [c])"

fun splits :: "'a list \<Rightarrow> ('a list \<times> 'a list) list" where
  "splits [] = [([], [])]"
| "splits (x # xs) = ([], x # xs) # map (\<lambda>(u, v). (x # u, v)) (splits xs)"

fun tokens_match :: "(char \<Rightarrow> string \<Rightarrow> bool) \<Rightarrow> string \<Rightarrow> string \<Rightarrow> bool" where
  "tokens_match tok [] t = (t = [])"
| "tokens_match tok (c # r) t =
     list_ex (\<lambda>(u, v). tok c u \<and> tokens_match tok r v) (splits t)"

definition pattern_matches :: "string \<Rightarrow> string \<Rightarrow> bool" where
  "pattern_matches route topic = tokens_match token_matches route topic"

definition claimed_matches :: "string \<Rightarrow> string \<Rightarrow> bool" where
  "claimed_matches route topic = tokens_match claimed_token route topic"

text \<open>
  The routes whose characters are a dot, a wildcard, or a character without a meaning
  of its own in a regular expression.
\<close>

definition plain_char :: "char \<Rightarrow> bool" where
  "plain_char c = (c \<notin> set ''()+?[]{}|^$'' \<and> c \<noteq> CHR 0x5C)"

definition plain_route :: "string \<Rightarrow> bool" where
  "plain_route route = list_all plain_char route"

subsection \<open>The strings a pattern denotes\<close>

inductive denotes :: "rx \<Rightarrow> string \<Rightarrow> bool" where
  den_Empty: "denotes Empty []"
| den_Single: "atom_ok a c \<Longrightarrow> denotes (Single a) [c]"
| den_Or1: "denotes r w \<Longrightarrow> denotes (Or r s) w"
| den_Or2: "denotes s w \<Longrightarrow> denotes (Or r s) w"
| den_Then: "denotes r u \<Longrightarrow> denotes s v \<Longrightarrow> denotes (Then r s) (u @ v)"
| den_Repeat1: "denotes r w \<Longrightarrow> denotes (Repeat r) w"
| den_RepeatS: "denotes r u \<Longrightarrow> denotes (Repeat r) v \<Longrightarrow> denotes (Repeat r) (u @ v)"
| den_Optional0: "denotes (Optional r) []"
| den_Optional1: "denotes r w \<Longrightarrow> denotes (Optional r) w"

inductive_simps denotes_Nothing [simp]: "denotes Nothing w"
inductive_simps denotes_Empty [simp]: "denotes Empty w"
inductive_simps denotes_Single [simp]: "denotes (Single a) w"
inductive_simps denotes_Or [simp]: "denotes (Or r s) w"
inductive_simps denotes_Then: "denotes (Then r s) w"
inductive_simps denotes_Optional [simp]: "denotes (Optional r) w"
inductive_simps denotes_Repeat: "denotes (Repeat r) w"

text \<open>The text and the compiled form that one character of a plain route contributes.\<close>

definition piece :: "char \<Rightarrow> string" where
  "piece c =
     (if c = CHR ''*'' then ''([^.]+)'' else if c = CHR ''#'' then ''([^.]+.?)+'' else [c])"

definition block :: rx where
  "block = seq_of [Optional (Single Any_char), Repeat (Single Not_dot)]"

definition item :: "char \<Rightarrow> rx" where
  "item c =
     (if c = CHR ''*'' then seq_of [Repeat (Single Not_dot)]
      else if c = CHR ''#'' then Repeat block
      else if c = CHR ''.'' then Single Any_char
      else Single (Lit c))"

section \<open>Messages, errors and the parts of the repository outside the source file\<close>

text \<open>
  An amqplib message as the service reads it: \<^verbatim>\<open>fields.routingKey\<close>, \<^verbatim>\<open>content\<close>
  (the buffer, as the string \<^verbatim>\<open>toString()\<close> gives), and of \<^verbatim>\<open>properties\<close> the
  correlation id, the reply address and the headers (no headers at all reads as no
  header).
\<close>

record message =
  routingKey :: string
  content :: string
  correlationId :: jsval
  replyTo :: jsval
  headers :: js_object

definition header :: "message \<Rightarrow> string \<Rightarrow> jsval" where
  "header msg k = (case headers msg k of None \<Rightarrow> Undefined | Some v \<Rightarrow> v)"

text \<open>\<^verbatim>\<open>new RMQError(message, type)\<close>.\<close>

datatype rmq_error = RMQError jsval jsval

text \<open>
  The constants that the source imports from the constants file, which is not among
  the sources: they are parameters. \<open>TRANSPORT\<close> is \<^verbatim>\<open>ERROR_TYPE.TRANSPORT\<close>.
\<close>

record constants =
  ERROR_NO_ROUTE :: string
  ERROR_NONE_RPC :: string
  ERROR_TIMEOUT :: string
  TRANSPORT :: jsval
  DEFAULT_TIMEOUT :: int
  INITIALIZATION_STEP_DELAY :: nat


definition errorHandler :: "message \<Rightarrow> rmq_error" where
  "errorHandler msg = RMQError (header msg ''-x-error'') (header msg ''-x-type'')"

text \<open>
  \<^verbatim>\<open>JSON.parse\<close> and \<^verbatim>\<open>JSON.stringify\<close> over the payload values \<open>'v\<close>, as parameters:
  \<open>JSON_parse\<close> is \<open>None\<close> where \<^verbatim>\<open>JSON.parse\<close> raises SyntaxError, \<open>JSON_stringify\<close> is
  \<open>None\<close> where \<^verbatim>\<open>JSON.stringify\<close> returns undefined (and \<^verbatim>\<open>Buffer.from\<close> then raises
  TypeError). \<open>js_string s\<close> is the string \<open>s\<close> as a payload value.
\<close>

record 'v codec =
  JSON_parse :: "string \<Rightarrow> 'v option"
  JSON_stringify :: "'v \<Rightarrow> string option"
  js_string :: "string \<Rightarrow> 'v"

text \<open>The fields of the service options that the modelled functions read.\<close>

record 'v service_options =
  exchangeName :: string
  serviceName :: jsval
  messagesTimeout :: jsval
  middleware :: "(message \<Rightarrow> js_error + message) list"
  intercepters :: "('v \<Rightarrow> message \<Rightarrow> rmq_error option \<Rightarrow> js_error + 'v) list"

section \<open>The initialization barrier\<close>

text \<open>
  \<^verbatim>\<open>initializationCheck\<close> (lines 299-309) returns when it reads \<^verbatim>\<open>isInitialized\<close> as true; otherwise it
  waits \<^verbatim>\<open>INITIALIZATION_STEP_DELAY\<close> and calls itself. \<^verbatim>\<open>onModuleInit\<close> sets the flag
  from outside, so the flag is given as what the \<open>k\<close>-th read finds. The result is
  the time spent waiting; \<open>None\<close> is a call that never returns.
\<close>

partial_function (option) initializationCheck ::
  "nat \<Rightarrow> (nat \<Rightarrow> bool) \<Rightarrow> nat \<Rightarrow> nat \<Rightarrow> nat option" where
  "initializationCheck delay isInitialized k waited =
     (if isInitialized k then Some waited
      else initializationCheck delay isInitialized (Suc k) (waited + delay))"

section \<open>The client side: send and notify\<close>

text \<open>
  A promise is pending or settled; \<^verbatim>\<open>resolve\<close> and \<^verbatim>\<open>reject\<close> settle a pending
  promise and do nothing to a settled one.
\<close>

datatype 'v promise = Pending | Resolved 'v | Rejected rmq_error

definition settle :: "'v promise \<Rightarrow> 'v promise \<Rightarrow> 'v promise" where
  "settle current outcome = (case current of Pending \<Rightarrow> outcome | _ \<Rightarrow> current)"

text \<open>
  The closures of send: the timer's callback, with the \<^verbatim>\<open>timeout\<close> and \<^verbatim>\<open>topic\<close> it
  reports and the promise it rejects, and the listener registered under the
  correlation id, with the timer it clears.
\<close>

record timeout_closure =
  tc_promise :: nat
  tc_timeout :: jsval
  tc_topic :: string

record waiter =
  w_timer :: nat
  w_topic :: string
  w_promise :: nat

text \<open>A call of \<^verbatim>\<open>clientChannel.publish(exchange, routingKey, content, options)\<close>.\<close>

record publication =
  pub_exchange :: string
  pub_routingKey :: string
  pub_content :: string
  pub_properties :: js_object

text \<open>
  The state the client side works on: the promises send has created, the timers that
  are set, \<^verbatim>\<open>sendResponseEmitter\<close>, \<^verbatim>\<open>replyQueue\<close>, the publish calls made so far and
  the log.
\<close>

record 'v client =
  promises :: "nat \<Rightarrow> 'v promise"
  next_promise :: nat
  timers :: "nat \<rightharpoonup> timeout_closure"
  next_timer :: nat
  sendResponseEmitter :: "(string, waiter) emitter"
  replyQueue :: string
  published :: "publication list"
  client_log :: "log_entry list"

definition resolve_promise :: "'v client \<Rightarrow> nat \<Rightarrow> 'v \<Rightarrow> 'v client" where
  "resolve_promise c p v = c\<lparr>promises := (promises c)(p := settle (promises c p) (Resolved v))\<rparr>"

definition reject_promise :: "'v client \<Rightarrow> nat \<Rightarrow> rmq_error \<Rightarrow> 'v client" where
  "reject_promise c p e = c\<lparr>promises := (promises c)(p := settle (promises c p) (Rejected e))\<rparr>"

definition setTimeout :: "'v client \<Rightarrow> timeout_closure \<Rightarrow> nat \<times> 'v client" where
  "setTimeout c cl =
     (next_timer c, c\<lparr>timers := (timers c)(next_timer c \<mapsto> cl), next_timer := Suc (next_timer c)\<rparr>)"

definition clearTimeout :: "'v client \<Rightarrow> nat \<Rightarrow> 'v client" where
  "clearTimeout c timerId = c\<lparr>timers := (timers c)(timerId := None)\<rparr>"

definition client_debug :: "'v client \<Rightarrow> log_entry \<Rightarrow> 'v client" where
  "client_debug c e = c\<lparr>client_log := client_log c @ [e]\<rparr>"

text \<open>
  A timer that is still set fires: its callback (lines 103-105) rejects with the
  timeout error.
\<close>

definition timeout_error :: "constants \<Rightarrow> jsval \<Rightarrow> string \<Rightarrow> rmq_error" where
  "timeout_error K timeout topic =
     RMQError (Str (ERROR_TIMEOUT K @ '': '' @ js_to_string timeout @ '' while sending to '' @ topic))
       (TRANSPORT K)"

definition timer_fires :: "constants \<Rightarrow> 'v client \<Rightarrow> nat \<Rightarrow> 'v client" where
  "timer_fires K c timerId =
     (case timers c timerId of
        None \<Rightarrow> c
      | Some cl \<Rightarrow>
          reject_promise (c\<lparr>timers := (timers c)(timerId := None)\<rparr>) (tc_promise cl)
            (timeout_error K (tc_timeout cl) (tc_topic cl)))"

text \<open>
  The listener that send registers (lines 106-118). It returns the state it leaves and the exception
  it raises, if any: \<^verbatim>\<open>JSON.parse\<close> is evaluated after the debug line and before
  \<^verbatim>\<open>resolve\<close> is called.
\<close>

definition reply_listener ::
  "'v codec \<Rightarrow> constants \<Rightarrow> waiter \<Rightarrow> message \<Rightarrow> 'v client \<Rightarrow> 'v client \<times> js_error option" where
  "reply_listener cd K w msg c =
     (let c1 = clearTimeout c (w_timer w);
          c2 = (if truthy (header msg ''-x-error'')
                then reject_promise c1 (w_promise w) (errorHandler msg) else c1)
      in if content msg \<noteq> [] then
           (let c3 = client_debug c2 (Debug_Received (w_topic w) (content msg))
            in case JSON_parse cd (content msg) of
                 None \<Rightarrow> (c3, Some SyntaxError)
               | Some v \<Rightarrow> (resolve_promise c3 (w_promise w) v, None))
         else (reject_promise c2 (w_promise w) (RMQError (Str (ERROR_NONE_RPC K)) (TRANSPORT K)),
               None))"

text \<open>
  \<^verbatim>\<open>sendResponseEmitter.emit(type, msg)\<close>: the listeners registered under the event
  (the name is the type as a property key) when emit starts are invoked in order; one
  added by once is removed just before it runs; an exception ends the call. Node
  raises when the type is the string \<^verbatim>\<open>error\<close> and no listener is registered for it.
\<close>

fun invoke_listeners ::
  "'v codec \<Rightarrow> constants \<Rightarrow> string \<Rightarrow> (bool \<times> waiter) list \<Rightarrow> message \<Rightarrow> 'v client
     \<Rightarrow> 'v client \<times> js_error option" where
  "invoke_listeners cd K ev [] msg c = (c, None)"
| "invoke_listeners cd K ev ((once, w) # ls) msg c =
     (let c0 = (if once
                then c\<lparr>sendResponseEmitter := remove1 (ev, True, w) (sendResponseEmitter c)\<rparr>
                else c)
      in case reply_listener cd K w msg c0 of
           (c1, Some e) \<Rightarrow> (c1, Some e)
         | (c1, None) \<Rightarrow> invoke_listeners cd K ev ls msg c1)"

definition emit ::
  "'v codec \<Rightarrow> constants \<Rightarrow> 'v client \<Rightarrow> jsval \<Rightarrow> message \<Rightarrow> 'v client \<times> js_error option" where
  "emit cd K c type msg =
     (let ev = js_to_string type
      in if type = Str ''error'' \<and> listeners (sendResponseEmitter c) ev = []
         then (c, Some (External ''ERR_UNHANDLED_ERROR''))
         else invoke_listeners cd K ev (listeners (sendResponseEmitter c) ev) msg c)"

text \<open>
  The consumer of the reply queue, set up by \<^verbatim>\<open>createClientChannel\<close> (lines 195-203),
  for a message (the null that amqplib passes when the consumer is cancelled is not
  modelled).
\<close>

definition reply_arrives ::
  "'v codec \<Rightarrow> constants \<Rightarrow> 'v client \<Rightarrow> message \<Rightarrow> 'v client \<times> js_error option" where
  "reply_arrives cd K c msg = emit cd K c (correlationId msg) msg"

text \<open>
  \<^verbatim>\<open>send\<close> (lines 98-128). \<open>cid\<close> is what \<^verbatim>\<open>getUniqId()\<close> returns and \<open>now\<close> what \<^verbatim>\<open>new Date().getTime()\<close>
  returns; \<open>channel\<close> is how the awaited publish ends (\<open>None\<close>: fulfilled). The promise
  is created first; everything else waits for the barrier.
\<close>

definition send_timeout :: "constants \<Rightarrow> 'v service_options \<Rightarrow> js_object option \<Rightarrow> jsval" where
  "send_timeout K opts options =
     coalesce (coalesce (optional_get options ''timeout'') (messagesTimeout opts))
       (Num (DEFAULT_TIMEOUT K))"

definition send_properties ::
  "'v client \<Rightarrow> 'v service_options \<Rightarrow> string \<Rightarrow> int \<Rightarrow> js_object option \<Rightarrow> js_object" where
  "send_properties c opts cid now options =
     [''replyTo'' \<mapsto> Str (replyQueue c), ''appId'' \<mapsto> serviceName opts,
      ''timestamp'' \<mapsto> Num now, ''correlationId'' \<mapsto> Str cid] ++ spread options"

definition send_body ::
  "'v codec \<Rightarrow> constants \<Rightarrow> 'v service_options \<Rightarrow> 'v client \<Rightarrow> nat \<Rightarrow> string \<Rightarrow> 'v
     \<Rightarrow> js_object option \<Rightarrow> string \<Rightarrow> int \<Rightarrow> js_error option \<Rightarrow> 'v client" where
  "send_body cd K opts c p topic msg options cid now channel =
     (let timeout = send_timeout K opts options;
          (timerId, c1) = setTimeout c \<lparr>tc_promise = p, tc_timeout = timeout, tc_topic = topic\<rparr>;
          c2 = c1\<lparr>sendResponseEmitter :=
                   emitter_once (sendResponseEmitter c1) cid
                     \<lparr>w_timer = timerId, w_topic = topic, w_promise = p\<rparr>\<rparr>
      in case JSON_stringify cd msg of
           None \<Rightarrow> c2
         | Some body \<Rightarrow>
             (let c3 = c2\<lparr>published := published c2 @
                          [\<lparr>pub_exchange = exchangeName opts, pub_routingKey = topic,
                            pub_content = body,
                            pub_properties = send_properties c2 opts cid now options\<rparr>]\<rparr>
              in case channel of
                   Some e \<Rightarrow> c3
                 | None \<Rightarrow> client_debug c3 (Debug_Sent topic body)))"

definition send ::
  "'v codec \<Rightarrow> constants \<Rightarrow> 'v service_options \<Rightarrow> (nat \<Rightarrow> bool) \<Rightarrow> 'v client \<Rightarrow> string \<Rightarrow> 'v
     \<Rightarrow> js_object option \<Rightarrow> string \<Rightarrow> int \<Rightarrow> js_error option \<Rightarrow> nat \<times> 'v client" where
  "send cd K opts isInitialized c topic msg options cid now channel =
     (let p = next_promise c;
          c0 = c\<lparr>promises := (promises c)(p := Pending), next_promise := Suc p\<rparr>
      in case initializationCheck (INITIALIZATION_STEP_DELAY K) isInitialized 0 0 of
           None \<Rightarrow> (p, c0)
         | Some waited \<Rightarrow> (p, send_body cd K opts c0 p topic msg options cid now channel))"

text \<open>
  \<^verbatim>\<open>notify\<close> (lines 130-138). The result is \<open>None\<close> when the call never gets past the barrier; otherwise
  how the returned promise ends, with the state.
\<close>

definition notify_properties :: "'v service_options \<Rightarrow> int \<Rightarrow> js_object option \<Rightarrow> js_object" where
  "notify_properties opts now options =
     [''appId'' \<mapsto> serviceName opts, ''timestamp'' \<mapsto> Num now] ++ spread options"

definition notify_body ::
  "'v codec \<Rightarrow> 'v service_options \<Rightarrow> 'v client \<Rightarrow> string \<Rightarrow> 'v \<Rightarrow> js_object option \<Rightarrow> int
     \<Rightarrow> js_error option \<Rightarrow> (js_error + unit) \<times> 'v client" where
  "notify_body cd opts c topic msg options now channel =
     (case JSON_stringify cd msg of
        None \<Rightarrow> (Inl TypeError, c)
      | Some body \<Rightarrow>
          (let c1 = c\<lparr>published := published c @
                       [\<lparr>pub_exchange = exchangeName opts, pub_routingKey = topic,
                         pub_content = body,
                         pub_properties = notify_properties opts now options\<rparr>]\<rparr>
           in case channel of
                Some e \<Rightarrow> (Inl e, c1)
              | None \<Rightarrow> (Inr (), client_debug c1 (Debug_notified topic body))))"

definition notify ::
  "'v codec \<Rightarrow> constants \<Rightarrow> 'v service_options \<Rightarrow> (nat \<Rightarrow> bool) \<Rightarrow> 'v client \<Rightarrow> string \<Rightarrow> 'v
     \<Rightarrow> js_object option \<Rightarrow> int \<Rightarrow> js_error option \<Rightarrow> ((js_error + unit) \<times> 'v client) option" where
  "notify cd K opts isInitialized c topic msg options now channel =
     (case initializationCheck (INITIALIZATION_STEP_DELAY K) isInitialized 0 0 of
        None \<Rightarrow> None
      | Some waited \<Rightarrow> Some (notify_body cd opts c topic msg options now channel))"

text \<open>
  What happens to a client between its own calls: a message arrives on the reply
  queue, or a timer fires. An exception that a listener raises goes to the channel;
  the client is left in the state the listener reached.
\<close>

datatype client_event = Reply_arrives message | Timer_fires nat

fun client_step :: "'v codec \<Rightarrow> constants \<Rightarrow> 'v client \<Rightarrow> client_event \<Rightarrow> 'v client" where
  "client_step cd K c (Reply_arrives msg) = fst (reply_arrives cd K c msg)"
| "client_step cd K c (Timer_fires timerId) = timer_fires K c timerId"

definition client_events ::
  "'v codec \<Rightarrow> constants \<Rightarrow> 'v client \<Rightarrow> client_event list \<Rightarrow> 'v client" where
  "client_events cd K c evs = foldl (client_step cd K) c evs"

text \<open>Some closure of the client (a timer's callback or a listener) can settle promise \<open>p\<close>.\<close>

definition holds_promise :: "'v client \<Rightarrow> nat \<Rightarrow> bool" where
  "holds_promise c p =
     ((\<exists>t cl. timers c t = Some cl \<and> tc_promise cl = p)
      \<or> (\<exists>x\<in>set (sendResponseEmitter c). w_promise (snd (snd x)) = p))"

text \<open>A client with nothing outstanding, listening on the reply queue \<open>q\<close>.\<close>

definition new_client :: "string \<Rightarrow> 'v client" where
  "new_client q =
     \<lparr>promises = (\<lambda>p. Pending), next_promise = 0, timers = Map.empty, next_timer = 0,
      sendResponseEmitter = [], replyQueue = q, published = [], client_log = []\<rparr>"

section \<open>The subscriber side: listen and reply\<close>

text \<open>A call of \<^verbatim>\<open>subscriptionChannel.sendToQueue(queue, content, options)\<close>.\<close>

record queue_send =
  sq_queue :: jsval
  sq_content :: string
  sq_correlationId :: jsval
  sq_headers :: js_object

text \<open>
  The state of the subscriber side: the routes, the sendToQueue calls made, what was
  emitted on \<^verbatim>\<open>requestEmitter\<close> for the handlers, and the log.
\<close>

record subscriber =
  routes :: "string list"
  sent_to_queue :: "queue_send list"
  requestEmitter_emitted :: "(string \<times> message) list"
  subscriber_log :: "log_entry list"






text \<open>
  The broker between the two sides: a message published with properties is delivered
  with them (of a request, the consumer reads the routing key, the content, the
  correlation id and the reply address), and a message sent to a queue is delivered
  to that queue's consumer.
\<close>

definition delivered :: "publication \<Rightarrow> message" where
  "delivered p =
     \<lparr>routingKey = pub_routingKey p, content = pub_content p,
      correlationId = (case pub_properties p ''correlationId'' of None \<Rightarrow> Undefined | Some v \<Rightarrow> v),
      replyTo = (case pub_properties p ''replyTo'' of None \<Rightarrow> Undefined | Some v \<Rightarrow> v),
      headers = Map.empty\<rparr>"


section \<open>Concrete values for the examples\<close>

text \<open>
  The values that the examples below are evaluated at. The constants stand for those
  of the absent constants file. The codec is \<^verbatim>\<open>JSON.parse\<close> and \<^verbatim>\<open>JSON.stringify\<close> on the
  documents the examples use: the numbers \<^verbatim>\<open>42\<close> and \<^verbatim>\<open>7\<close>, the empty string (written
  with its two quotation marks) and \<^verbatim>\<open>undefined\<close>, which has no JSON text;
  \<^verbatim>\<open>JSON.parse\<close> raises on the text \<^verbatim>\<open>oops\<close>.
\<close>

definition example_constants :: constants where
  "example_constants =
     \<lparr>ERROR_NO_ROUTE = ''no route'', ERROR_NONE_RPC = ''no content'', ERROR_TIMEOUT = ''timeout'',
      TRANSPORT = Str ''TRANSPORT'', DEFAULT_TIMEOUT = 90000, INITIALIZATION_STEP_DELAY = 300\<rparr>"

definition example_codec :: "jsval codec" where
  "example_codec =
     \<lparr>JSON_parse = (\<lambda>s. if s = ''42'' then Some (Num 42)
                         else if s = ''7'' then Some (Num 7)
                         else if s = [CHR 0x22, CHR 0x22] then Some (Str [])
                         else None),
      JSON_stringify = (\<lambda>v. if v = Num 42 then Some ''42''
                             else if v = Num 7 then Some ''7''
                             else if v = Str [] then Some [CHR 0x22, CHR 0x22]
                             else None),
      js_string = Str\<rparr>"

definition example_options :: "jsval service_options" where
  "example_options =
     \<lparr>exchangeName = ''exchange'', serviceName = Str ''service'', messagesTimeout = Undefined,
      middleware = [], intercepters = []\<rparr>"



section \<open>Properties of the pattern matcher\<close>

subsection \<open>Derivatives match what the pattern denotes\<close>

lemma denotes_Repeat_Nil: "denotes (Repeat r) [] \<longleftrightarrow> denotes r []"
  by (subst denotes_Repeat) auto

lemma nullable_denotes: "nullable r \<longleftrightarrow> denotes r []"
  by (induction r) (auto simp: denotes_Then denotes_Repeat_Nil)

lemma denotes_Repeat_ConsD:
  assumes "denotes R x" and "R = Repeat r" and "x = c # w"
  shows "\<exists>u v. w = u @ v \<and> denotes r (c # u) \<and> (v = [] \<or> denotes (Repeat r) v)"
  using assms
proof (induction arbitrary: w rule: denotes.induct)
  case (den_Repeat1 r' w')
  then show ?case by auto
next
  case (den_RepeatS r' u' v')
  show ?case
  proof (cases u')
    case Nil
    with den_RepeatS show ?thesis by auto
  next
    case (Cons a u'')
    with den_RepeatS.prems den_RepeatS.hyps show ?thesis by auto
  qed
qed simp_all

lemma denotes_Repeat_Cons:
  "denotes (Repeat r) (c # w) \<longleftrightarrow>
     (\<exists>u v. w = u @ v \<and> denotes r (c # u) \<and> (v = [] \<or> denotes (Repeat r) v))"
proof
  assume "denotes (Repeat r) (c # w)"
  then show "\<exists>u v. w = u @ v \<and> denotes r (c # u) \<and> (v = [] \<or> denotes (Repeat r) v)"
    using denotes_Repeat_ConsD by blast
next
  assume "\<exists>u v. w = u @ v \<and> denotes r (c # u) \<and> (v = [] \<or> denotes (Repeat r) v)"
  then obtain u v where w: "w = u @ v" and u: "denotes r (c # u)"
    and v: "v = [] \<or> denotes (Repeat r) v" by blast
  from v show "denotes (Repeat r) (c # w)"
  proof
    assume "v = []"
    with w u show ?thesis by (simp add: den_Repeat1)
  next
    assume "denotes (Repeat r) v"
    with u have "denotes (Repeat r) ((c # u) @ v)" by (rule den_RepeatS)
    with w show ?thesis by simp
  qed
qed

lemma denotes_deriv: "denotes (deriv c r) w \<longleftrightarrow> denotes r (c # w)"
proof (induction r arbitrary: w)
  case (Then r s)
  show ?case
  proof (cases "nullable r")
    case True
    then show ?thesis
      using Then by (auto simp: denotes_Then Cons_eq_append_conv nullable_denotes)
  next
    case False
    then show ?thesis
      using Then by (auto simp: denotes_Then Cons_eq_append_conv nullable_denotes)
  qed
next
  case (Repeat r)
  then show ?case
    by (auto simp: denotes_Then denotes_Repeat_Cons)
qed auto

lemma accepts_denotes: "accepts r w \<longleftrightarrow> denotes r w"
proof (induction w arbitrary: r)
  case Nil
  then show ?case by (simp add: accepts_def nullable_denotes)
next
  case (Cons c w)
  have "accepts r (c # w) = accepts (deriv c r) w" by (simp add: accepts_def)
  with Cons show ?case by (simp add: denotes_deriv)
qed

subsection \<open>What the source text of a plain route compiles to\<close>

lemma replace_all_append:
  "replace_all c new (a @ b) = replace_all c new a @ replace_all c new b"
  by (simp add: replace_all_def)

lemma replace_all_pieces:
  "replace_all (CHR ''#'') ''([^.]+.?)+'' (replace_all (CHR ''*'') ''([^.]+)'' r)
     = concat (map piece r)"
proof (induction r)
  case Nil
  then show ?case by (simp add: replace_all_def)
next
  case (Cons c r)
  have "replace_all (CHR ''*'') ''([^.]+)'' (c # r)
      = (if c = CHR ''*'' then ''([^.]+)'' else [c]) @ replace_all (CHR ''*'') ''([^.]+)'' r"
    by (simp add: replace_all_def)
  moreover have
    "replace_all (CHR ''#'') ''([^.]+.?)+'' (if c = CHR ''*'' then ''([^.]+)'' else [c]) = piece c"
    by (simp add: replace_all_def piece_def)
  ultimately show ?case using Cons by (simp add: replace_all_append)
qed

lemma parse_chars_append:
  "parse_chars p (a @ b) = (case parse_chars p a of None \<Rightarrow> None | Some q \<Rightarrow> parse_chars q b)"
  by (induction a arbitrary: p) (auto split: option.splits)

lemma parse_piece:
  assumes "p_cls p = 0" and "p_frames p = f # fs" and "plain_char c"
  shows "\<exists>q. parse_chars p (piece c) = Some q \<and> p_frames q = (item c # f) # fs \<and> p_cls q = 0"
proof -
  consider "c = CHR ''*''" | "c = CHR ''#''" | "c = CHR ''.''"
    | "c \<noteq> CHR ''*''" "c \<noteq> CHR ''#''" "c \<noteq> CHR ''.''" by blast
  then show ?thesis
  proof cases
    case 1
    with assms show ?thesis
      by (simp add: piece_def item_def parse_char_def push_item_def quantify_def)
  next
    case 2
    with assms show ?thesis
      by (simp add: piece_def item_def block_def parse_char_def push_item_def quantify_def)
  next
    case 3
    with assms show ?thesis
      by (simp add: piece_def item_def parse_char_def push_item_def quantify_def)
  next
    case 4
    with assms show ?thesis
      by (simp add: piece_def item_def parse_char_def push_item_def quantify_def plain_char_def)
  qed
qed

lemma parse_pieces:
  assumes "list_all plain_char r"
  shows "p_cls p = 0 \<Longrightarrow> p_frames p = f # fs \<Longrightarrow>
     \<exists>q. parse_chars p (concat (map piece r)) = Some q
        \<and> p_frames q = (rev (map item r) @ f) # fs \<and> p_cls q = 0"
  using assms
proof (induction r arbitrary: p f)
  case Nil
  then show ?case by simp
next
  case (Cons c r)
  from Cons.prems have "plain_char c" by simp
  with Cons.prems obtain q where q: "parse_chars p (piece c) = Some q"
    "p_frames q = (item c # f) # fs" "p_cls q = 0"
    using parse_piece by blast
  from Cons.prems have "list_all plain_char r" by simp
  with Cons.IH [OF q(3) q(2)] obtain q' where
    "parse_chars q (concat (map piece r)) = Some q'"
    "p_frames q' = (rev (map item r) @ item c # f) # fs" "p_cls q' = 0" by blast
  with q show ?case by (simp add: parse_chars_append)
qed

lemma seq_of_rev: "seq_of (rev xs) = foldr Then xs Empty"
  by (simp add: seq_of_def foldl_conv_foldr)

lemma RegExp_regexString:
  assumes "plain_route r"
  shows "RegExp (regexString r) = Some (foldr Then (map item r) Empty)"
proof -
  from assms have plain: "list_all plain_char r" by (simp add: plain_route_def)
  obtain q where q:
    "parse_chars \<lparr>p_frames = [[]], p_cls = 0, p_rep = No_atom\<rparr> (concat (map piece r)) = Some q"
    "p_frames q = (rev (map item r) @ []) # []" "p_cls q = 0"
    using parse_pieces [OF plain, of "\<lparr>p_frames = [[]], p_cls = 0, p_rep = No_atom\<rparr>" "[]" "[]"]
    by auto
  have "regexString r = CHR ''^'' # (concat (map piece r) @ [CHR ''$''])"
    by (simp add: regexString_def replace_all_pieces)
  then show ?thesis using q by (simp add: RegExp_def seq_of_rev)
qed

subsection \<open>What each token of a plain route takes\<close>

lemma set_splits: "(u, v) \<in> set (splits t) \<longleftrightarrow> u @ v = t"
proof (induction t arbitrary: u)
  case Nil
  then show ?case by auto
next
  case (Cons a t)
  show ?case
  proof (cases u)
    case Nil
    then show ?thesis by auto
  next
    case (Cons b u')
    with Cons.IH [of u'] show ?thesis by auto
  qed
qed

lemma segment_Repeat_only_if:
  assumes "denotes R x" and "R = Repeat (Single Not_dot)"
  shows "segment x"
  using assms by (induction rule: denotes.induct) (auto simp: segment_def)

lemma segment_Repeat_if:
  "x \<noteq> [] \<Longrightarrow> CHR ''.'' \<notin> set x \<Longrightarrow> denotes (Repeat (Single Not_dot)) x"
proof (induction x)
  case Nil
  then show ?case by simp
next
  case (Cons c x)
  show ?case
  proof (cases x)
    case Nil
    with Cons.prems show ?thesis by (auto intro: den_Repeat1)
  next
    case (Cons d y)
    with Cons.prems Cons.IH have "denotes (Repeat (Single Not_dot)) x" by simp
    moreover from Cons.prems have "denotes (Single Not_dot) [c]" by auto
    ultimately have "denotes (Repeat (Single Not_dot)) ([c] @ x)" by (rule den_RepeatS [rotated])
    then show ?thesis by simp
  qed
qed

lemma denotes_segment: "denotes (Repeat (Single Not_dot)) x \<longleftrightarrow> segment x"
  using segment_Repeat_only_if segment_Repeat_if by (auto simp: segment_def)

lemma denotes_block:
  "denotes block u \<longleftrightarrow>
     (\<exists>s d. u = s @ d \<and> segment s
        \<and> (d = [] \<or> (\<exists>c. d = [c] \<and> c \<noteq> CHR 0x0A \<and> c \<noteq> CHR 0x0D)))"
  by (auto simp: block_def seq_of_def denotes_Then denotes_segment)

lemma dots_apart_append:
  "dots_apart u \<Longrightarrow> dots_apart v \<Longrightarrow> v = [] \<or> hd v \<noteq> CHR ''.'' \<Longrightarrow> dots_apart (u @ v)"
proof (induction u rule: dots_apart.induct)
  case 1
  then show ?case by simp
next
  case (2 a)
  then show ?case by (cases v) auto
next
  case (3 a b t)
  then show ?case by simp
qed

lemma dots_apart_no_dot_snoc: "CHR ''.'' \<notin> set s \<Longrightarrow> dots_apart (s @ [c])"
  by (induction s rule: dots_apart.induct) auto

lemma dots_apart_no_dot: "CHR ''.'' \<notin> set s \<Longrightarrow> dots_apart s"
  by (induction s rule: dots_apart.induct) auto

lemma dots_apart_suffix: "dots_apart (u @ v) \<Longrightarrow> dots_apart v"
proof (induction u)
  case Nil
  then show ?case by simp
next
  case (Cons a u)
  then show ?case by (cases "u @ v") auto
qed

lemma segments_run_block:
  assumes "denotes block u"
  shows "segments_run u"
proof -
  from assms obtain s d where u: "u = s @ d" and s: "segment s"
    and d: "d = [] \<or> (\<exists>c. d = [c] \<and> c \<noteq> CHR 0x0A \<and> c \<noteq> CHR 0x0D)"
    using denotes_block by blast
  from s have "s \<noteq> []" "CHR ''.'' \<notin> set s" by (simp_all add: segment_def)
  then have "hd s \<noteq> CHR ''.''" by (cases s) auto
  with u d \<open>s \<noteq> []\<close> \<open>CHR ''.'' \<notin> set s\<close> show ?thesis
    by (auto simp: segments_run_def dots_apart_no_dot_snoc dots_apart_no_dot)
qed

lemma segments_run_append: "segments_run u \<Longrightarrow> segments_run v \<Longrightarrow> segments_run (u @ v)"
  by (auto simp: segments_run_def dots_apart_append)

lemma segments_run_only_if:
  assumes "denotes R x" and "R = Repeat block"
  shows "segments_run x"
  using assms
proof (induction rule: denotes.induct)
  case (den_Repeat1 r w)
  then show ?case by (simp add: segments_run_block)
next
  case (den_RepeatS r u v)
  then show ?case by (simp add: segments_run_block segments_run_append)
qed simp_all

lemma segments_run_if: "segments_run t \<Longrightarrow> denotes (Repeat block) t"
proof (induction t rule: length_induct)
  case (1 t)
  define s where "s = takeWhile (\<lambda>c. c \<noteq> CHR ''.'') t"
  define rest where "rest = dropWhile (\<lambda>c. c \<noteq> CHR ''.'') t"
  have t: "t = s @ rest" by (simp add: s_def rest_def)
  from "1.prems" have "t \<noteq> []" "hd t \<noteq> CHR ''.''" "dots_apart t"
    by (simp_all add: segments_run_def)
  then have "s \<noteq> []" by (cases t) (auto simp: s_def)
  have "CHR ''.'' \<notin> set s" using set_takeWhileD [of "CHR ''.''" "\<lambda>c. c \<noteq> CHR ''.''" t]
    by (auto simp: s_def)
  with \<open>s \<noteq> []\<close> have seg: "segment s" by (simp add: segment_def)
  show ?case
  proof (cases rest)
    case Nil
    with t seg have "denotes block t" by (auto simp: denotes_block)
    then show ?thesis by (rule den_Repeat1)
  next
    case (Cons d more)
    have "rest \<noteq> []" using Cons by simp
    then have "\<not> (hd rest \<noteq> CHR ''.'')"
      unfolding rest_def by (rule hd_dropWhile)
    with Cons have "d = CHR ''.''" by simp
    with seg have blk: "denotes block (s @ [d])" by (auto simp: denotes_block)
    show ?thesis
    proof (cases more)
      case Nil
      with t Cons blk show ?thesis by (simp add: den_Repeat1)
    next
      case (Cons m more')
      from \<open>dots_apart t\<close> t \<open>rest = d # more\<close> have "dots_apart (d # more)"
        using dots_apart_suffix by blast
      with Cons \<open>d = CHR ''.''\<close> have "m \<noteq> CHR ''.''" "dots_apart more" by simp_all
      with Cons have "segments_run more" by (simp add: segments_run_def)
      moreover have "length more < length t" using t \<open>rest = d # more\<close> by simp
      ultimately have "denotes (Repeat block) more" using "1.IH" by blast
      with blk have "denotes (Repeat block) ((s @ [d]) @ more)" by (rule den_RepeatS)
      with t \<open>rest = d # more\<close> show ?thesis by simp
    qed
  qed
qed

lemma denotes_segments_run: "denotes (Repeat block) t \<longleftrightarrow> segments_run t"
  using segments_run_only_if segments_run_if by blast

lemma denotes_item: "denotes (item c) u \<longleftrightarrow> token_matches c u"
proof -
  consider "c = CHR ''*''" | "c = CHR ''#''" | "c = CHR ''.''"
    | "c \<noteq> CHR ''*''" "c \<noteq> CHR ''#''" "c \<noteq> CHR ''.''" by blast
  then show ?thesis
  proof cases
    case 1
    then show ?thesis
      by (simp add: item_def token_matches_def seq_of_def denotes_Then denotes_segment)
  next
    case 2
    then show ?thesis by (simp add: item_def token_matches_def denotes_segments_run)
  next
    case 3
    then show ?thesis
      by (cases u rule: dots_apart.cases) (auto simp: item_def token_matches_def)
  next
    case 4
    then show ?thesis by (auto simp: item_def token_matches_def)
  qed
qed

lemma denotes_items:
  "denotes (foldr Then (map item r) Empty) t \<longleftrightarrow> tokens_match token_matches r t"
proof (induction r arbitrary: t)
  case Nil
  then show ?case by auto
next
  case (Cons c r)
  have "denotes (Then (item c) (foldr Then (map item r) Empty)) t
      \<longleftrightarrow> (\<exists>u v. t = u @ v \<and> token_matches c u \<and> tokens_match token_matches r v)"
    unfolding denotes_Then denotes_item Cons by blast
  also have "\<dots> \<longleftrightarrow>
      list_ex (\<lambda>(u, v). token_matches c u \<and> tokens_match token_matches r v) (splits t)"
    by (fastforce simp: list_ex_iff set_splits)
  finally show ?case by simp
qed

lemma search_found_plain:
  assumes "plain_route r"
  shows "search_found t (regexString r) = Some (pattern_matches r t)"
  by (simp add: search_found_def RegExp_regexString [OF assms] accepts_denotes denotes_items
      pattern_matches_def)

lemma route_matches_plain:
  "plain_route route \<Longrightarrow>
     route_matches topic route = Inr (route = topic \<or> pattern_matches route topic)"
  by (simp add: route_matches_def search_found_plain)

subsection \<open>find\<close>




section \<open>Listener counts across connection events\<close>

lemma listenerCount_attach:
  "listenerCount (responseEmitter (attachEmitters s)) k = Suc (listenerCount (responseEmitter s) k)"
  by (cases k) (simp_all add: attachEmitters_def emitter_on_def listenerCount_def listeners_def)

lemma listenerCount_event:
  "listenerCount (responseEmitter (on_connection_event s e)) k =
     (if is_connect e then Suc (listenerCount (responseEmitter s) k) else 0)"
proof (cases e)
  case CONNECT_EVENT
  then show ?thesis by (simp add: listenerCount_attach)
next
  case (DISCONNECT_EVENT err)
  then show ?thesis
    by (simp add: Let_def detachEmitters_def removeAllListeners_def listenerCount_def listeners_def)
qed

lemma listenerCount_events:
  "listenerCount (responseEmitter (connection_events s evs)) k =
     (if list_all is_connect evs then listenerCount (responseEmitter s) k + length evs
      else length (takeWhile is_connect (rev evs)))"
proof (induction evs rule: rev_induct)
  case Nil
  then show ?case by (simp add: connection_events_def)
next
  case (snoc e evs)
  have "connection_events s (evs @ [e]) = on_connection_event (connection_events s evs) e"
    by (simp add: connection_events_def)
  with snoc show ?case by (simp add: listenerCount_event)
qed

section \<open>Properties of the client side\<close>

subsection \<open>The barrier\<close>

lemma initializationCheck_returns:
  "isInitialized (k + m) \<Longrightarrow> (\<forall>j<m. \<not> isInitialized (k + j))
     \<Longrightarrow> initializationCheck d isInitialized k w = Some (w + m * d)"
proof (induction m arbitrary: k w)
  case 0
  then show ?case by (subst initializationCheck.simps) simp
next
  case (Suc m)
  from Suc.prems have "\<not> isInitialized k" by (metis add.right_neutral zero_less_Suc)
  moreover have "initializationCheck d isInitialized (Suc k) (w + d) = Some ((w + d) + m * d)"
  proof (rule Suc.IH)
    show "isInitialized (Suc k + m)" using Suc.prems by simp
    show "\<forall>j<m. \<not> isInitialized (Suc k + j)"
    proof (intro allI impI)
      fix j assume "j < m"
      then have "Suc j < Suc m" by simp
      with Suc.prems(2) have "\<not> isInitialized (k + Suc j)" by blast
      then show "\<not> isInitialized (Suc k + j)" by simp
    qed
  qed
  ultimately show ?case by (subst initializationCheck.simps) simp
qed

lemma initializationCheck_SomeD:
  assumes "initializationCheck d isInitialized k w = Some t"
  shows "\<exists>m. isInitialized (k + m) \<and> (\<forall>j<m. \<not> isInitialized (k + j)) \<and> t = w + m * d"
proof (rule initializationCheck.raw_induct
    [where P = "\<lambda>d f k w t. \<exists>m. f (k + m) \<and> (\<forall>j<m. \<not> f (k + j)) \<and> t = w + m * d",
      OF _ assms])
  fix rec :: "nat \<Rightarrow> (nat \<Rightarrow> bool) \<Rightarrow> nat \<Rightarrow> nat \<Rightarrow> nat option" and d f k w t
  assume IH: "\<And>d f k w t. rec d f k w = Some t
      \<Longrightarrow> \<exists>m. f (k + m) \<and> (\<forall>j<m. \<not> f (k + j)) \<and> t = w + m * d"
    and step: "(if f k then Some w else rec d f (Suc k) (w + d)) = Some t"
  show "\<exists>m. f (k + m) \<and> (\<forall>j<m. \<not> f (k + j)) \<and> t = w + m * d"
  proof (cases "f k")
    case True
    with step have "t = w" by simp
    with True have "f (k + 0) \<and> (\<forall>j<0. \<not> f (k + j)) \<and> t = w + 0 * d" by simp
    then show ?thesis by blast
  next
    case False
    with step have "rec d f (Suc k) (w + d) = Some t" by simp
    from IH [OF this] obtain m where m: "f (Suc k + m)" "\<forall>j<m. \<not> f (Suc k + j)"
      "t = (w + d) + m * d" by blast
    have "\<forall>j<Suc m. \<not> f (k + j)"
    proof (intro allI impI)
      fix j assume j: "j < Suc m"
      show "\<not> f (k + j)"
      proof (cases j)
        case 0
        with False show ?thesis by simp
      next
        case (Suc i)
        with j have "i < m" by simp
        with m(2) have "\<not> f (Suc k + i)" by blast
        with Suc show ?thesis by simp
      qed
    qed
    with m have "f (k + Suc m) \<and> (\<forall>j<Suc m. \<not> f (k + j)) \<and> t = w + Suc m * d" by simp
    then show ?thesis by blast
  qed
qed

lemma initializationCheck_first:
  assumes "isInitialized n"
  shows "initializationCheck d isInitialized 0 0 = Some ((LEAST m. isInitialized m) * d)"
proof -
  define first where "first = (LEAST m. isInitialized m)"
  have "isInitialized first" unfolding first_def using assms by (rule LeastI)
  then have a: "isInitialized (0 + first)" by simp
  have "\<not> isInitialized j" if "j < first" for j
    using that unfolding first_def by (rule not_less_Least)
  then have b: "\<forall>j<first. \<not> isInitialized (0 + j)" by simp
  have "initializationCheck d isInitialized 0 0 = Some (0 + first * d)"
    using a b by (rule initializationCheck_returns)
  then show ?thesis by (simp add: first_def)
qed

lemma initializationCheck_never:
  assumes "\<forall>n. \<not> isInitialized n"
  shows "initializationCheck d isInitialized k w = None"
proof (cases "initializationCheck d isInitialized k w")
  case None
  then show ?thesis .
next
  case (Some t)
  then obtain m where "isInitialized (k + m)" using initializationCheck_SomeD by blast
  with assms show ?thesis by simp
qed

subsection \<open>What send leaves behind\<close>

lemma send_after_barrier:
  assumes "isInitialized n"
  shows "send cd K opts isInitialized c topic msg options cid now channel =
     (next_promise c,
      send_body cd K opts
        (c\<lparr>promises := (promises c)(next_promise c := Pending), next_promise := Suc (next_promise c)\<rparr>)
        (next_promise c) topic msg options cid now channel)"
  using initializationCheck_first [of isInitialized n "INITIALIZATION_STEP_DELAY K"] assms
  by (simp add: send_def Let_def)

lemma send_body_timers:
  "timers (send_body cd K opts c p topic msg options cid now channel) =
     (timers c)(next_timer c \<mapsto>
        \<lparr>tc_promise = p, tc_timeout = send_timeout K opts options, tc_topic = topic\<rparr>)"
  by (simp add: send_body_def Let_def setTimeout_def client_debug_def split: option.splits)

lemma send_body_emitter:
  "sendResponseEmitter (send_body cd K opts c p topic msg options cid now channel) =
     sendResponseEmitter c @ [(cid, True, \<lparr>w_timer = next_timer c, w_topic = topic, w_promise = p\<rparr>)]"
  by (simp add: send_body_def Let_def setTimeout_def emitter_once_def client_debug_def
      split: option.splits)

lemma send_body_promises:
  "promises (send_body cd K opts c p topic msg options cid now channel) = promises c"
  by (simp add: send_body_def Let_def setTimeout_def client_debug_def split: option.splits)

lemma send_body_replyQueue:
  "replyQueue (send_body cd K opts c p topic msg options cid now channel) = replyQueue c"
  by (simp add: send_body_def Let_def setTimeout_def client_debug_def split: option.splits)

lemma send_body_published:
  "published (send_body cd K opts c p topic msg options cid now channel) =
     (case JSON_stringify cd msg of
        None \<Rightarrow> published c
      | Some body \<Rightarrow>
          published c @
            [\<lparr>pub_exchange = exchangeName opts, pub_routingKey = topic, pub_content = body,
              pub_properties = send_properties c opts cid now options\<rparr>])"
  by (simp add: send_body_def Let_def setTimeout_def client_debug_def send_properties_def
      split: option.splits)

subsection \<open>Listeners and emit\<close>

lemma listeners_append:
  "listeners (em @ em') ev = listeners em ev @ listeners em' ev"
  by (simp add: listeners_def)

lemma listeners_single:
  "listeners [(ev', b, w)] ev = (if ev' = ev then [(b, w)] else [])"
  by (simp add: listeners_def)

lemma listeners_Nil_notin:
  "listeners em ev = [] \<Longrightarrow> (ev, b, w) \<notin> set em"
  by (auto simp: listeners_def filter_empty_conv)

lemma remove1_last_fresh: "x \<notin> set xs \<Longrightarrow> remove1 x (xs @ [x]) = xs"
  by (simp add: remove1_append)

lemma emit_no_listener:
  "listeners (sendResponseEmitter c) (js_to_string type) = [] \<Longrightarrow> fst (emit cd K c type msg) = c"
  by (simp add: emit_def Let_def)

lemma emit_one_listener:
  "listeners (sendResponseEmitter c) (js_to_string type) = [(True, w)] \<Longrightarrow>
     emit cd K c type msg =
       reply_listener cd K w msg
         (c\<lparr>sendResponseEmitter := remove1 (js_to_string type, True, w) (sendResponseEmitter c)\<rparr>)"
  by (simp add: emit_def Let_def split: prod.splits option.splits)

subsection \<open>What the listener does to the state\<close>

lemma reply_listener_timers:
  "timers (fst (reply_listener cd K w msg c)) = (timers c)(w_timer w := None)"
  by (simp add: reply_listener_def Let_def clearTimeout_def reject_promise_def resolve_promise_def
      client_debug_def split: option.splits)

lemma reply_listener_emitter:
  "sendResponseEmitter (fst (reply_listener cd K w msg c)) = sendResponseEmitter c"
  by (simp add: reply_listener_def Let_def clearTimeout_def reject_promise_def resolve_promise_def
      client_debug_def split: option.splits)

lemma reply_listener_other_promise:
  "q \<noteq> w_promise w \<Longrightarrow> promises (fst (reply_listener cd K w msg c)) q = promises c q"
  by (simp add: reply_listener_def Let_def clearTimeout_def reject_promise_def resolve_promise_def
      client_debug_def split: option.splits)

lemma reply_listener_pending:
  "promises c (w_promise w) = Pending \<Longrightarrow>
     promises (fst (reply_listener cd K w msg c)) (w_promise w) =
       (if truthy (header msg ''-x-error'') then Rejected (errorHandler msg)
        else if content msg = [] then Rejected (RMQError (Str (ERROR_NONE_RPC K)) (TRANSPORT K))
        else (case JSON_parse cd (content msg) of None \<Rightarrow> Pending | Some v \<Rightarrow> Resolved v))"
  by (simp add: reply_listener_def Let_def clearTimeout_def reject_promise_def resolve_promise_def
      client_debug_def settle_def split: option.splits)

lemma reply_listener_settled:
  "promises c (w_promise w) \<noteq> Pending \<Longrightarrow>
     promises (fst (reply_listener cd K w msg c)) (w_promise w) = promises c (w_promise w)"
  by (cases "promises c (w_promise w)")
    (simp_all add: reply_listener_def Let_def clearTimeout_def reject_promise_def
      resolve_promise_def client_debug_def settle_def split: option.splits)

lemma reply_listener_exception:
  "snd (reply_listener cd K w msg c) =
     (if content msg \<noteq> [] \<and> JSON_parse cd (content msg) = None then Some SyntaxError else None)"
  by (simp add: reply_listener_def Let_def split: option.splits)

lemma reply_listener_log:
  "client_log (fst (reply_listener cd K w msg c)) =
     (if content msg \<noteq> [] then client_log c @ [Debug_Received (w_topic w) (content msg)]
      else client_log c)"
  by (simp add: reply_listener_def Let_def clearTimeout_def reject_promise_def resolve_promise_def
      client_debug_def split: option.splits)

subsection \<open>The state after send, and the two ways out of it\<close>

lemma send_facts:
  assumes "isInitialized n"
    and "send cd K opts isInitialized c topic msg options cid now channel = (p, c1)"
  shows "p = next_promise c"
    and "promises c1 = (promises c)(p := Pending)"
    and "timers c1 =
           (timers c)(next_timer c \<mapsto>
              \<lparr>tc_promise = p, tc_timeout = send_timeout K opts options, tc_topic = topic\<rparr>)"
    and "sendResponseEmitter c1 =
           sendResponseEmitter c @
             [(cid, True, \<lparr>w_timer = next_timer c, w_topic = topic, w_promise = p\<rparr>)]"
    and "replyQueue c1 = replyQueue c"
    and "published c1 =
           (case JSON_stringify cd msg of
              None \<Rightarrow> published c
            | Some body \<Rightarrow>
                published c @
                  [\<lparr>pub_exchange = exchangeName opts, pub_routingKey = topic, pub_content = body,
                    pub_properties = send_properties c opts cid now options\<rparr>])"
proof -
  from assms have "p = next_promise c \<and> c1 = send_body cd K opts
        (c\<lparr>promises := (promises c)(next_promise c := Pending), next_promise := Suc (next_promise c)\<rparr>)
        (next_promise c) topic msg options cid now channel"
    by (auto simp: send_after_barrier [of isInitialized n])
  then have p: "p = next_promise c"
    and c1: "c1 = send_body cd K opts
        (c\<lparr>promises := (promises c)(next_promise c := Pending), next_promise := Suc (next_promise c)\<rparr>)
        (next_promise c) topic msg options cid now channel"
    by simp_all
  show "p = next_promise c" by (rule p)
  show "promises c1 = (promises c)(p := Pending)" by (simp add: c1 p send_body_promises)
  show "timers c1 =
      (timers c)(next_timer c \<mapsto>
         \<lparr>tc_promise = p, tc_timeout = send_timeout K opts options, tc_topic = topic\<rparr>)"
    by (simp add: c1 p send_body_timers)
  show "sendResponseEmitter c1 =
      sendResponseEmitter c @
        [(cid, True, \<lparr>w_timer = next_timer c, w_topic = topic, w_promise = p\<rparr>)]"
    by (simp add: c1 p send_body_emitter)
  show "replyQueue c1 = replyQueue c" by (simp add: c1 send_body_replyQueue)
  show "published c1 =
      (case JSON_stringify cd msg of
         None \<Rightarrow> published c
       | Some body \<Rightarrow>
           published c @
             [\<lparr>pub_exchange = exchangeName opts, pub_routingKey = topic, pub_content = body,
               pub_properties = send_properties c opts cid now options\<rparr>])"
    by (simp add: c1 send_body_published send_properties_def split: option.splits)
qed

lemma reply_to_waiter:
  assumes "sendResponseEmitter c1 = em @ [(cid, True, w)]"
    and "listeners em cid = []"
    and "js_to_string (correlationId answer) = cid"
  shows "reply_arrives cd K c1 answer =
     reply_listener cd K w answer (c1\<lparr>sendResponseEmitter := em\<rparr>)"
proof -
  from assms have "listeners (sendResponseEmitter c1) (js_to_string (correlationId answer)) = [(True, w)]"
    by (simp add: listeners_append listeners_single)
  then have "reply_arrives cd K c1 answer =
      reply_listener cd K w answer
        (c1\<lparr>sendResponseEmitter :=
              remove1 (js_to_string (correlationId answer), True, w) (sendResponseEmitter c1)\<rparr>)"
    unfolding reply_arrives_def by (rule emit_one_listener)
  moreover from assms(2) have "(cid, True, w) \<notin> set em" by (rule listeners_Nil_notin)
  ultimately show ?thesis
    using assms(1,3) by (simp add: remove1_last_fresh)
qed

lemma reply_to_nobody:
  "listeners (sendResponseEmitter c) (js_to_string (correlationId answer)) = []
     \<Longrightarrow> fst (reply_arrives cd K c answer) = c"
  by (simp add: reply_arrives_def emit_no_listener)

lemma timer_fires_pending:
  "timers c t = Some cl \<Longrightarrow> promises c (tc_promise cl) = Pending \<Longrightarrow>
     promises (timer_fires K c t) (tc_promise cl) =
       Rejected (timeout_error K (tc_timeout cl) (tc_topic cl))"
  by (simp add: timer_fires_def reject_promise_def settle_def)

lemma timer_fires_emitter:
  "sendResponseEmitter (timer_fires K c t) = sendResponseEmitter c"
  by (simp add: timer_fires_def reject_promise_def split: option.splits)

lemma timer_fires_log: "client_log (timer_fires K c t) = client_log c"
  by (simp add: timer_fires_def reject_promise_def split: option.splits)

lemma timer_fires_cleared: "timers c t = None \<Longrightarrow> timer_fires K c t = c"
  by (simp add: timer_fires_def)

lemma reply_after_send:
  assumes "isInitialized n"
    and "listeners (sendResponseEmitter c) cid = []"
    and "send cd K opts isInitialized c topic msg options cid now channel = (p, c1)"
    and "js_to_string (correlationId answer) = cid"
  shows "promises (fst (reply_arrives cd K c1 answer)) p =
     (if truthy (header answer ''-x-error'') then Rejected (errorHandler answer)
      else if content answer = [] then Rejected (RMQError (Str (ERROR_NONE_RPC K)) (TRANSPORT K))
      else (case JSON_parse cd (content answer) of None \<Rightarrow> Pending | Some v \<Rightarrow> Resolved v))"
proof -
  let ?w = "\<lparr>w_timer = next_timer c, w_topic = topic, w_promise = p\<rparr>"
  note facts = send_facts [OF assms(1) assms(3)]
  have "reply_arrives cd K c1 answer =
      reply_listener cd K ?w answer (c1\<lparr>sendResponseEmitter := sendResponseEmitter c\<rparr>)"
    using facts(4) assms(2) assms(4) by (rule reply_to_waiter)
  moreover have "promises (c1\<lparr>sendResponseEmitter := sendResponseEmitter c\<rparr>) (w_promise ?w) = Pending"
    by (simp add: facts(2))
  ultimately show ?thesis
    using reply_listener_pending
      [where c = "c1\<lparr>sendResponseEmitter := sendResponseEmitter c\<rparr>" and w = ?w
        and cd = cd and msg = answer and K = K]
    by simp
qed

subsection \<open>The reply to a message without a route\<close>


subsection \<open>A promise that no closure holds is never settled\<close>

lemma holds_promise_timers_emitter:
  assumes "\<not> holds_promise c p"
    and "\<And>t cl. timers c' t = Some cl \<Longrightarrow> timers c t = Some cl"
    and "set (sendResponseEmitter c') \<subseteq> set (sendResponseEmitter c)"
  shows "\<not> holds_promise c' p"
  using assms unfolding holds_promise_def by blast

lemma timer_fires_not_held:
  assumes "\<not> holds_promise c p"
  shows "promises (timer_fires K c t) p = promises c p \<and> \<not> holds_promise (timer_fires K c t) p"
proof (cases "timers c t")
  case None
  with assms show ?thesis by (simp add: timer_fires_def)
next
  case (Some cl)
  with assms have other: "tc_promise cl \<noteq> p" unfolding holds_promise_def by blast
  have tm: "timers (timer_fires K c t) = (timers c)(t := None)"
    using Some by (simp add: timer_fires_def reject_promise_def)
  have "\<not> holds_promise (timer_fires K c t) p"
  proof (rule holds_promise_timers_emitter [OF assms])
    fix u cl' assume "timers (timer_fires K c t) u = Some cl'"
    then show "timers c u = Some cl'" by (simp add: tm split: if_splits)
  next
    show "set (sendResponseEmitter (timer_fires K c t)) \<subseteq> set (sendResponseEmitter c)"
      by (simp add: timer_fires_emitter)
  qed
  moreover have "promises (timer_fires K c t) p = promises c p"
    using Some other by (simp add: timer_fires_def reject_promise_def)
  ultimately show ?thesis by simp
qed

lemma reply_listener_not_held:
  assumes "w_promise w \<noteq> p" and "\<not> holds_promise c p"
  shows "promises (fst (reply_listener cd K w msg c)) p = promises c p
     \<and> \<not> holds_promise (fst (reply_listener cd K w msg c)) p"
proof -
  have "\<not> holds_promise (fst (reply_listener cd K w msg c)) p"
  proof (rule holds_promise_timers_emitter [OF assms(2)])
    fix u cl' assume "timers (fst (reply_listener cd K w msg c)) u = Some cl'"
    then show "timers c u = Some cl'" by (simp add: reply_listener_timers split: if_splits)
  next
    show "set (sendResponseEmitter (fst (reply_listener cd K w msg c))) \<subseteq> set (sendResponseEmitter c)"
      by (simp add: reply_listener_emitter)
  qed
  moreover have "promises (fst (reply_listener cd K w msg c)) p = promises c p"
    using assms(1) by (simp add: reply_listener_other_promise)
  ultimately show ?thesis by simp
qed

lemma invoke_listeners_not_held:
  assumes "\<forall>x\<in>set ls. w_promise (snd x) \<noteq> p" and "\<not> holds_promise c p"
  shows "promises (fst (invoke_listeners cd K ev ls msg c)) p = promises c p
     \<and> \<not> holds_promise (fst (invoke_listeners cd K ev ls msg c)) p"
  using assms
proof (induction ls arbitrary: c)
  case Nil
  then show ?case by simp
next
  case (Cons x ls)
  obtain once w where x: "x = (once, w)" by (cases x)
  define c0 where "c0 = (if once
      then c\<lparr>sendResponseEmitter := remove1 (ev, True, w) (sendResponseEmitter c)\<rparr> else c)"
  have c0: "promises c0 p = promises c p" "\<not> holds_promise c0 p"
  proof -
    show "promises c0 p = promises c p" by (simp add: c0_def)
    show "\<not> holds_promise c0 p"
    proof (rule holds_promise_timers_emitter [OF Cons.prems(2)])
      fix u cl' assume "timers c0 u = Some cl'"
      then show "timers c u = Some cl'" by (simp add: c0_def split: if_splits)
    next
      show "set (sendResponseEmitter c0) \<subseteq> set (sendResponseEmitter c)"
        using set_remove1_subset [of "(ev, True, w)" "sendResponseEmitter c"]
        by (auto simp: c0_def)
    qed
  qed
  from Cons.prems(1) x have wp: "w_promise w \<noteq> p" by simp
  obtain c1 exn where r: "reply_listener cd K w msg c0 = (c1, exn)"
    by (cases "reply_listener cd K w msg c0")
  from reply_listener_not_held [OF wp c0(2), of cd K msg] r c0(1)
  have c1: "promises c1 p = promises c p" "\<not> holds_promise c1 p" by simp_all
  show ?case
  proof (cases exn)
    case None
    from Cons.prems(1) have "\<forall>x\<in>set ls. w_promise (snd x) \<noteq> p" by simp
    from Cons.IH [OF this c1(2)] c1(1) None r show ?thesis
      by (simp add: x c0_def [symmetric])
  next
    case (Some e)
    with c1 r show ?thesis by (simp add: x c0_def [symmetric])
  qed
qed

lemma reply_arrives_not_held:
  assumes "\<not> holds_promise c p"
  shows "promises (fst (reply_arrives cd K c msg)) p = promises c p
     \<and> \<not> holds_promise (fst (reply_arrives cd K c msg)) p"
proof -
  have "\<forall>x\<in>set (listeners (sendResponseEmitter c) (js_to_string (correlationId msg))).
      w_promise (snd x) \<noteq> p"
    using assms unfolding holds_promise_def listeners_def by auto
  from invoke_listeners_not_held [OF this assms] assms show ?thesis
    by (simp add: reply_arrives_def emit_def Let_def)
qed

lemma client_events_not_held:
  "\<not> holds_promise c p \<Longrightarrow> promises (client_events cd K c evs) p = promises c p"
proof (induction evs arbitrary: c)
  case Nil
  then show ?case by (simp add: client_events_def)
next
  case (Cons e evs)
  have step: "promises (client_step cd K c e) p = promises c p
      \<and> \<not> holds_promise (client_step cd K c e) p"
  proof (cases e)
    case (Reply_arrives msg)
    with Cons.prems show ?thesis by (simp add: reply_arrives_not_held)
  next
    case (Timer_fires t)
    with Cons.prems show ?thesis by (simp add: timer_fires_not_held)
  qed
  have "client_events cd K c (e # evs) = client_events cd K (client_step cd K c e) evs"
    by (simp add: client_events_def)
  with Cons.IH [of "client_step cd K c e"] step show ?case by simp
qed

subsection \<open>A settled promise stays as it is\<close>

lemma timer_fires_settled:
  "promises c p \<noteq> Pending \<Longrightarrow> promises (timer_fires K c t) p = promises c p"
  by (cases "promises c p")
    (auto simp: timer_fires_def reject_promise_def settle_def split: option.splits)

lemma reply_listener_keeps_settled:
  "promises c p \<noteq> Pending \<Longrightarrow> promises (fst (reply_listener cd K w msg c)) p = promises c p"
  by (cases "p = w_promise w") (simp_all add: reply_listener_settled reply_listener_other_promise)

lemma invoke_listeners_settled:
  "promises c p \<noteq> Pending \<Longrightarrow>
     promises (fst (invoke_listeners cd K ev ls msg c)) p = promises c p"
proof (induction ls arbitrary: c)
  case Nil
  then show ?case by simp
next
  case (Cons x ls)
  obtain once w where x: "x = (once, w)" by (cases x)
  define c0 where "c0 = (if once
      then c\<lparr>sendResponseEmitter := remove1 (ev, True, w) (sendResponseEmitter c)\<rparr> else c)"
  have c0: "promises c0 p = promises c p" by (simp add: c0_def)
  obtain c1 exn where r: "reply_listener cd K w msg c0 = (c1, exn)"
    by (cases "reply_listener cd K w msg c0")
  from reply_listener_keeps_settled [of c0 p cd K w msg] Cons.prems c0 r
  have c1: "promises c1 p = promises c p" by simp
  show ?case
  proof (cases exn)
    case None
    from Cons.IH [of c1] c1 Cons.prems None r show ?thesis
      by (simp add: x c0_def [symmetric])
  next
    case (Some e)
    with c1 r show ?thesis by (simp add: x c0_def [symmetric])
  qed
qed

lemma settled_promise_stays:
  "promises c p \<noteq> Pending \<Longrightarrow> promises (client_events cd K c evs) p = promises c p"
proof (induction evs arbitrary: c)
  case Nil
  then show ?case by (simp add: client_events_def)
next
  case (Cons e evs)
  have step: "promises (client_step cd K c e) p = promises c p"
  proof (cases e)
    case (Reply_arrives msg)
    with Cons.prems show ?thesis
      by (simp add: reply_arrives_def emit_def Let_def invoke_listeners_settled)
  next
    case (Timer_fires t)
    with Cons.prems show ?thesis by (simp add: timer_fires_settled)
  qed
  have "client_events cd K c (e # evs) = client_events cd K (client_step cd K c e) evs"
    by (simp add: client_events_def)
  with Cons.IH [of "client_step cd K c e"] step Cons.prems show ?case by simp
qed

subsection \<open>Routes and topics of the examples\<close>

lemma plain_route_examples:
  "plain_route ''x''" "plain_route ''y''" "plain_route ''a.*''" "plain_route ''a.#''"
  "plain_route ''orders.*''" "plain_route ''orders.#''" "plain_route ''orders.created''"
  "plain_route ''orders-created''"
  by (simp_all add: plain_route_def plain_char_def)



lemma getRouteByTopic_loose_examples:
  "getRouteByTopic [''orders.*''] ''ordersXcreated'' = Inr (Some ''orders.*'')"
  "getRouteByTopic [''orders.#''] ''orders.created.'' = Inr (Some ''orders.#'')"
  "getRouteByTopic [''orders.#''] ''orders'' = Inr None"
  by (simp_all add: getRouteByTopic_def route_matches_plain plain_route_examples
      pattern_matches_def token_matches_def segment_def segments_run_def)

section \<open>Claim C1: every send is settled exactly once\<close>

text \<open>
  What holds of the race: a promise that has been settled keeps its outcome through
  every later reply and timer (lemma \<open>settled_promise_stays\<close>), and C5 gives the
  outcome of whichever comes first.

  C1 fails where the first thing to happen is a reply that carries no error marker and
  whose content is not empty and is not JSON. The listener clears the timer, and
  \<^verbatim>\<open>JSON.parse\<close> raises before \<^verbatim>\<open>resolve\<close> is called. The listener is gone (it was added
  by once), the timer is gone, and no reply and no timer that comes later settles the
  promise: it is settled zero times.
\<close>

theorem unreadable_reply_never_settles:
  assumes "isInitialized n"
    and "listeners (sendResponseEmitter c) cid = []"
    and "\<not> holds_promise c (next_promise c)"
    and "send cd K opts isInitialized c topic msg options cid now channel = (p, c1)"
    and "js_to_string (correlationId answer) = cid"
    and "\<not> truthy (header answer ''-x-error'')"
    and "content answer \<noteq> []"
    and "JSON_parse cd (content answer) = None"
  shows "snd (reply_arrives cd K c1 answer) = Some SyntaxError
     \<and> timers (fst (reply_arrives cd K c1 answer)) (next_timer c) = None
     \<and> listeners (sendResponseEmitter (fst (reply_arrives cd K c1 answer))) cid = []
     \<and> promises (client_events cd K (fst (reply_arrives cd K c1 answer)) evs) p = Pending"
proof -
  let ?w = "\<lparr>w_timer = next_timer c, w_topic = topic, w_promise = p\<rparr>"
  let ?c = "c1\<lparr>sendResponseEmitter := sendResponseEmitter c\<rparr>"
  note facts = send_facts [OF assms(1) assms(4)]
  have arrives: "reply_arrives cd K c1 answer = reply_listener cd K ?w answer ?c"
    using facts(4) assms(2) assms(5) by (rule reply_to_waiter)
  define c2 where "c2 = fst (reply_arrives cd K c1 answer)"
  have exn: "snd (reply_arrives cd K c1 answer) = Some SyntaxError"
    using assms(7,8) by (simp add: arrives reply_listener_exception)
  have tm: "timers c2 = (timers c)(next_timer c := None)"
    by (simp add: c2_def arrives reply_listener_timers facts(3))
  have em: "sendResponseEmitter c2 = sendResponseEmitter c"
    by (simp add: c2_def arrives reply_listener_emitter)
  have "promises ?c (w_promise ?w) = Pending" by (simp add: facts(2))
  from reply_listener_pending [OF this, of cd K answer] assms(6,7,8)
  have pend: "promises c2 p = Pending" by (simp add: c2_def arrives)
  have "\<not> holds_promise c2 p"
  proof (rule holds_promise_timers_emitter)
    show "\<not> holds_promise c p" using assms(3) facts(1) by simp
  next
    fix u cl assume "timers c2 u = Some cl"
    then show "timers c u = Some cl" by (simp add: tm split: if_splits)
  next
    show "set (sendResponseEmitter c2) \<subseteq> set (sendResponseEmitter c)" by (simp add: em)
  qed
  then have "promises (client_events cd K c2 evs) p = promises c2 p"
    by (rule client_events_not_held)
  with pend exn tm em assms(2) show ?thesis by (simp add: c2_def [symmetric])
qed

theorem unreadable_reply_never_settles_witness:
  "snd (reply_arrives example_codec example_constants
      (snd (send example_codec example_constants example_options (\<lambda>k. 2 \<le> k)
         (new_client ''replies'') ''sum'' (Num 7) None ''id-1'' 1000 None))
      \<lparr>routingKey = ''replies'', content = ''oops'', correlationId = Str ''id-1'',
       replyTo = Undefined, headers = Map.empty\<rparr>) = Some SyntaxError
   \<and> promises
       (client_events example_codec example_constants
          (fst (reply_arrives example_codec example_constants
             (snd (send example_codec example_constants example_options (\<lambda>k. 2 \<le> k)
                (new_client ''replies'') ''sum'' (Num 7) None ''id-1'' 1000 None))
             \<lparr>routingKey = ''replies'', content = ''oops'', correlationId = Str ''id-1'',
              replyTo = Undefined, headers = Map.empty\<rparr>))
          [Timer_fires 0,
           Reply_arrives \<lparr>routingKey = ''replies'', content = ''42'', correlationId = Str ''id-1'',
                          replyTo = Undefined, headers = Map.empty\<rparr>]) 0 = Pending"
proof -
  define c1 where "c1 = snd (send example_codec example_constants example_options (\<lambda>k. 2 \<le> k)
      (new_client ''replies'') ''sum'' (Num 7) None ''id-1'' 1000 None)"
  have init: "(\<lambda>k::nat. 2 \<le> k) 2" by simp
  have fresh: "listeners (sendResponseEmitter (new_client ''replies'' :: jsval client)) ''id-1'' = []"
    by (simp add: new_client_def listeners_def)
  have free: "\<not> holds_promise (new_client ''replies'' :: jsval client)
      (next_promise (new_client ''replies'' :: jsval client))"
    by (simp add: holds_promise_def new_client_def)
  have sent: "send example_codec example_constants example_options (\<lambda>k. 2 \<le> k)
      (new_client ''replies'') ''sum'' (Num 7) None ''id-1'' 1000 None = (0, c1)"
    by (simp add: c1_def prod_eq_iff send_after_barrier [of "\<lambda>k. 2 \<le> k" 2] new_client_def)
  have "snd (reply_arrives example_codec example_constants c1
        \<lparr>routingKey = ''replies'', content = ''oops'', correlationId = Str ''id-1'',
         replyTo = Undefined, headers = Map.empty\<rparr>) = Some SyntaxError
     \<and> timers (fst (reply_arrives example_codec example_constants c1
        \<lparr>routingKey = ''replies'', content = ''oops'', correlationId = Str ''id-1'',
         replyTo = Undefined, headers = Map.empty\<rparr>))
        (next_timer (new_client ''replies'' :: jsval client)) = None
     \<and> listeners (sendResponseEmitter (fst (reply_arrives example_codec example_constants c1
        \<lparr>routingKey = ''replies'', content = ''oops'', correlationId = Str ''id-1'',
         replyTo = Undefined, headers = Map.empty\<rparr>))) ''id-1'' = []
     \<and> promises (client_events example_codec example_constants
         (fst (reply_arrives example_codec example_constants c1
            \<lparr>routingKey = ''replies'', content = ''oops'', correlationId = Str ''id-1'',
             replyTo = Undefined, headers = Map.empty\<rparr>))
         [Timer_fires 0,
          Reply_arrives \<lparr>routingKey = ''replies'', content = ''42'', correlationId = Str ''id-1'',
                         replyTo = Undefined, headers = Map.empty\<rparr>]) 0 = Pending"
    by (rule unreadable_reply_never_settles [OF init fresh free sent])
      (simp_all add: header_def example_codec_def)
  then show ?thesis unfolding c1_def by simp
qed

section \<open>Claim C2: what the wildcards and the other characters match\<close>

text \<open>
  For a route made of dots, wildcards and characters with no meaning of their own in
  a regular expression, the source's test is equality or \<open>pattern_matches\<close> (lemma
  \<open>route_matches_plain\<close>): the topic is cut into consecutive pieces, one per character
  of the route, and \<^verbatim>\<open>*\<close> takes one segment, \<^verbatim>\<open>#\<close> a run of one or more segments
  separated by single dots (which may end in one more dot), a dot any one character,
  any other character itself.

  C2 holds for its three examples (lemma \<open>getRouteByTopic_examples\<close>) and fails for
  the characters that are not wildcards: line 274 puts the route into the pattern as
  it is, so the dot of a route is not taken literally. With the routes
  \<^verbatim>\<open>orders.created\<close> and \<^verbatim>\<open>orders-created\<close> registered in this order, the topic
  \<^verbatim>\<open>orders-created\<close> resolves to \<^verbatim>\<open>orders.created\<close>, which it does not match under the
  claimed reading.
\<close>

theorem dot_of_route_matches_any_character:
  "getRouteByTopic [''orders.created'', ''orders-created''] ''orders-created''
     = Inr (Some ''orders.created'')
   \<and> \<not> claimed_matches ''orders.created'' ''orders-created''"
  by (simp add: getRouteByTopic_def route_matches_plain plain_route_examples
      pattern_matches_def claimed_matches_def token_matches_def claimed_token_def)

section \<open>Claim C3: the registry entry after the first settlement\<close>

text \<open>
  When the reply comes first the listener is removed (it was added by once) and the
  timer is cleared. C3 fails on the other path: the timer's callback only rejects. The
  listener that send registered under the correlation id is still registered after
  the timer has fired, and a reply that comes later still runs it: the listener
  writes its debug line, and its calls of \<^verbatim>\<open>resolve\<close> and \<^verbatim>\<open>reject\<close> find the promise
  already rejected.
\<close>

theorem timeout_leaves_listener:
  assumes "isInitialized n"
    and "listeners (sendResponseEmitter c) cid = []"
    and "send cd K opts isInitialized c topic msg options cid now channel = (p, c1)"
    and "js_to_string (correlationId late) = cid"
    and "content late \<noteq> []"
  shows "listeners (sendResponseEmitter (timer_fires K c1 (next_timer c))) cid =
           [(True, \<lparr>w_timer = next_timer c, w_topic = topic, w_promise = p\<rparr>)]
     \<and> promises (timer_fires K c1 (next_timer c)) p =
         Rejected (timeout_error K (send_timeout K opts options) topic)
     \<and> client_log (fst (reply_arrives cd K (timer_fires K c1 (next_timer c)) late)) =
         client_log c1 @ [Debug_Received topic (content late)]
     \<and> promises (fst (reply_arrives cd K (timer_fires K c1 (next_timer c)) late)) p =
         Rejected (timeout_error K (send_timeout K opts options) topic)"
proof -
  let ?w = "\<lparr>w_timer = next_timer c, w_topic = topic, w_promise = p\<rparr>"
  let ?cl = "\<lparr>tc_promise = p, tc_timeout = send_timeout K opts options, tc_topic = topic\<rparr>"
  note facts = send_facts [OF assms(1) assms(3)]
  define c2 where "c2 = timer_fires K c1 (next_timer c)"
  have tm: "timers c1 (next_timer c) = Some ?cl" by (simp add: facts(3))
  have em: "sendResponseEmitter c2 = sendResponseEmitter c @ [(cid, True, ?w)]"
    by (simp add: c2_def timer_fires_emitter facts(4))
  then have ls: "listeners (sendResponseEmitter c2) cid = [(True, ?w)]"
    using assms(2) by (simp add: listeners_append listeners_single)
  have rej: "promises c2 p = Rejected (timeout_error K (send_timeout K opts options) topic)"
    using timer_fires_pending [OF tm, of K] by (simp add: c2_def facts(2))
  have lg: "client_log c2 = client_log c1" by (simp add: c2_def timer_fires_log)
  let ?c = "c2\<lparr>sendResponseEmitter := sendResponseEmitter c\<rparr>"
  have arrives: "reply_arrives cd K c2 late = reply_listener cd K ?w late ?c"
    using em assms(2) assms(4) by (rule reply_to_waiter)
  have "client_log (fst (reply_arrives cd K c2 late)) = client_log c1 @ [Debug_Received topic (content late)]"
    using assms(5) lg by (simp add: arrives reply_listener_log)
  moreover have "promises (fst (reply_arrives cd K c2 late)) p = promises c2 p"
    using rej reply_listener_keeps_settled [of ?c p cd K ?w late] by (simp add: arrives)
  ultimately show ?thesis using ls rej by (simp add: c2_def [symmetric])
qed

theorem timeout_leaves_listener_witness:
  "listenerCount
     (sendResponseEmitter
        (timer_fires example_constants
           (snd (send example_codec example_constants example_options (\<lambda>k. 2 \<le> k)
              (new_client ''replies'') ''sum'' (Num 7) None ''id-1'' 1000 None)) 0)) ''id-1'' = 1
   \<and> client_log
       (fst (reply_arrives example_codec example_constants
          (timer_fires example_constants
             (snd (send example_codec example_constants example_options (\<lambda>k. 2 \<le> k)
                (new_client ''replies'') ''sum'' (Num 7) None ''id-1'' 1000 None)) 0)
          \<lparr>routingKey = ''replies'', content = ''42'', correlationId = Str ''id-1'',
           replyTo = Undefined, headers = Map.empty\<rparr>))
       = [Debug_Sent ''sum'' ''7'', Debug_Received ''sum'' ''42'']"
proof -
  define c1 where "c1 = snd (send example_codec example_constants example_options (\<lambda>k. 2 \<le> k)
      (new_client ''replies'') ''sum'' (Num 7) None ''id-1'' 1000 None)"
  have init: "(\<lambda>k::nat. 2 \<le> k) 2" by simp
  have fresh: "listeners (sendResponseEmitter (new_client ''replies'' :: jsval client)) ''id-1'' = []"
    by (simp add: new_client_def listeners_def)
  have sent: "send example_codec example_constants example_options (\<lambda>k. 2 \<le> k)
      (new_client ''replies'') ''sum'' (Num 7) None ''id-1'' 1000 None = (0, c1)"
    by (simp add: c1_def prod_eq_iff send_after_barrier [of "\<lambda>k. 2 \<le> k" 2] new_client_def)
  have lg: "client_log c1 = [Debug_Sent ''sum'' ''7'']"
    by (simp add: c1_def send_after_barrier [of "\<lambda>k. 2 \<le> k" 2] send_body_def Let_def
        setTimeout_def client_debug_def example_codec_def new_client_def)
  have nt: "next_timer (new_client ''replies'' :: jsval client) = 0" by (simp add: new_client_def)
  from timeout_leaves_listener [OF init fresh sent,
      of "\<lparr>routingKey = ''replies'', content = ''42'', correlationId = Str ''id-1'',
           replyTo = Undefined, headers = Map.empty\<rparr>"]
  show ?thesis unfolding c1_def [symmetric] by (simp add: listenerCount_def lg nt)
qed

section \<open>Claim C4: a message that no route matches\<close>




section \<open>Claim C5: how a send is settled\<close>

text \<open>
  C5. For a send that has passed the barrier, under a correlation id that no listener
  is registered under yet:
  the timer that send sets carries \<^verbatim>\<open>options.timeout\<close> when that is neither null nor
  undefined, else the service's \<^verbatim>\<open>messagesTimeout\<close> when that is neither, else
  \<^verbatim>\<open>DEFAULT_TIMEOUT\<close>;
  a reply under the correlation id whose \<^verbatim>\<open>-x-error\<close> header is truthy rejects with
  the decoded error; otherwise a reply with empty content rejects with
  \<^verbatim>\<open>ERROR_NONE_RPC\<close>; otherwise a reply whose content \<^verbatim>\<open>JSON.parse\<close> reads resolves
  with the value read;
  and when the timer fires first, the promise is rejected with the transport error
  whose message names the timeout and the topic.
\<close>

theorem send_settlement:
  assumes "isInitialized n"
    and "listeners (sendResponseEmitter c) cid = []"
    and "send cd K opts isInitialized c topic msg options cid now channel = (p, c1)"
  shows
    "timers c1 (next_timer c) =
        Some \<lparr>tc_promise = p, tc_timeout = send_timeout K opts options, tc_topic = topic\<rparr>
     \<and> send_timeout K opts options =
         (if optional_get options ''timeout'' \<noteq> Undefined \<and> optional_get options ''timeout'' \<noteq> Null
          then optional_get options ''timeout''
          else if messagesTimeout opts \<noteq> Undefined \<and> messagesTimeout opts \<noteq> Null
          then messagesTimeout opts
          else Num (DEFAULT_TIMEOUT K))
     \<and> promises c1 p = Pending
     \<and> (js_to_string (correlationId failed) = cid \<and> truthy (header failed ''-x-error'')
          \<longrightarrow> promises (fst (reply_arrives cd K c1 failed)) p = Rejected (errorHandler failed))
     \<and> (js_to_string (correlationId hollow) = cid \<and> \<not> truthy (header hollow ''-x-error'')
          \<and> content hollow = []
          \<longrightarrow> promises (fst (reply_arrives cd K c1 hollow)) p =
                Rejected (RMQError (Str (ERROR_NONE_RPC K)) (TRANSPORT K)))
     \<and> (js_to_string (correlationId answer) = cid \<and> \<not> truthy (header answer ''-x-error'')
          \<and> content answer \<noteq> [] \<and> JSON_parse cd (content answer) = Some v
          \<longrightarrow> promises (fst (reply_arrives cd K c1 answer)) p = Resolved v)
     \<and> promises (timer_fires K c1 (next_timer c)) p =
         Rejected
           (RMQError
              (Str (ERROR_TIMEOUT K @ '': '' @ js_to_string (send_timeout K opts options)
                    @ '' while sending to '' @ topic))
              (TRANSPORT K))"
proof -
  let ?cl = "\<lparr>tc_promise = p, tc_timeout = send_timeout K opts options, tc_topic = topic\<rparr>"
  note facts = send_facts [OF assms(1) assms(3)]
  have tm: "timers c1 (next_timer c) = Some ?cl" by (simp add: facts(3))
  have pend: "promises c1 p = Pending" by (simp add: facts(2))
  have chain: "send_timeout K opts options =
      (if optional_get options ''timeout'' \<noteq> Undefined \<and> optional_get options ''timeout'' \<noteq> Null
       then optional_get options ''timeout''
       else if messagesTimeout opts \<noteq> Undefined \<and> messagesTimeout opts \<noteq> Null
       then messagesTimeout opts
       else Num (DEFAULT_TIMEOUT K))"
    by (simp add: send_timeout_def coalesce_def)
  have answer: "promises (fst (reply_arrives cd K c1 answer)) p =
      (if truthy (header answer ''-x-error'') then Rejected (errorHandler answer)
       else if content answer = [] then Rejected (RMQError (Str (ERROR_NONE_RPC K)) (TRANSPORT K))
       else (case JSON_parse cd (content answer) of None \<Rightarrow> Pending | Some v \<Rightarrow> Resolved v))"
    if "js_to_string (correlationId answer) = cid" for answer
    using assms that by (rule reply_after_send)
  have fire: "promises (timer_fires K c1 (next_timer c)) p =
      Rejected (timeout_error K (send_timeout K opts options) topic)"
    using timer_fires_pending [OF tm, of K] pend by simp
  from tm chain pend answer fire show ?thesis
    by (simp add: timeout_error_def)
qed


theorem send_settlement_witness:
  "promises
     (fst (reply_arrives example_codec example_constants
        (snd (send example_codec example_constants example_options (\<lambda>k. 2 \<le> k)
           (new_client ''replies'') ''sum'' (Num 7) (Some [''timeout'' \<mapsto> Num 10])
           ''id-1'' 1000 None))
        \<lparr>routingKey = ''replies'', content = [], correlationId = Str ''id-1'',
         replyTo = Undefined,
         headers = [''-x-error'' \<mapsto> Str ''boom'', ''-x-type'' \<mapsto> Str ''RMQ'']\<rparr>)) 0
     = Rejected (RMQError (Str ''boom'') (Str ''RMQ''))
   \<and> promises
     (fst (reply_arrives example_codec example_constants
        (snd (send example_codec example_constants example_options (\<lambda>k. 2 \<le> k)
           (new_client ''replies'') ''sum'' (Num 7) (Some [''timeout'' \<mapsto> Num 10])
           ''id-1'' 1000 None))
        \<lparr>routingKey = ''replies'', content = [], correlationId = Str ''id-1'',
         replyTo = Undefined, headers = Map.empty\<rparr>)) 0
     = Rejected (RMQError (Str ''no content'') (Str ''TRANSPORT''))
   \<and> promises
     (fst (reply_arrives example_codec example_constants
        (snd (send example_codec example_constants example_options (\<lambda>k. 2 \<le> k)
           (new_client ''replies'') ''sum'' (Num 7) (Some [''timeout'' \<mapsto> Num 10])
           ''id-1'' 1000 None))
        \<lparr>routingKey = ''replies'', content = ''42'', correlationId = Str ''id-1'',
         replyTo = Undefined, headers = Map.empty\<rparr>)) 0
     = Resolved (Num 42)
   \<and> promises
     (timer_fires example_constants
        (snd (send example_codec example_constants example_options (\<lambda>k. 2 \<le> k)
           (new_client ''replies'') ''sum'' (Num 7) (Some [''timeout'' \<mapsto> Num 10])
           ''id-1'' 1000 None)) 0) 0
     = Rejected (RMQError (Str ''timeout: 10 while sending to sum'') (Str ''TRANSPORT''))"
proof -
  define c1 where "c1 = snd (send example_codec example_constants example_options (\<lambda>k. 2 \<le> k)
      (new_client ''replies'') ''sum'' (Num 7) (Some [''timeout'' \<mapsto> Num 10]) ''id-1'' 1000 None)"
  have init: "(\<lambda>k::nat. 2 \<le> k) 2" by simp
  have fresh: "listeners (sendResponseEmitter (new_client ''replies'' :: jsval client)) ''id-1'' = []"
    by (simp add: new_client_def listeners_def)
  have sent: "send example_codec example_constants example_options (\<lambda>k. 2 \<le> k)
      (new_client ''replies'') ''sum'' (Num 7) (Some [''timeout'' \<mapsto> Num 10]) ''id-1'' 1000 None
      = (0, c1)"
    by (simp add: c1_def prod_eq_iff send_after_barrier [of "\<lambda>k. 2 \<le> k" 2] new_client_def)
  have ten: "js_to_string (Num 10) = ''10''"
    by (simp add: string_of_nat.simps)
  note th = send_settlement [OF init fresh sent,
      where failed = "\<lparr>routingKey = ''replies'', content = [], correlationId = Str ''id-1'',
         replyTo = Undefined,
         headers = [''-x-error'' \<mapsto> Str ''boom'', ''-x-type'' \<mapsto> Str ''RMQ'']\<rparr>"
      and hollow = "\<lparr>routingKey = ''replies'', content = [], correlationId = Str ''id-1'',
         replyTo = Undefined, headers = Map.empty\<rparr>"
      and answer = "\<lparr>routingKey = ''replies'', content = ''42'', correlationId = Str ''id-1'',
         replyTo = Undefined, headers = Map.empty\<rparr>"
      and v = "Num 42"]
  from th ten show ?thesis
    unfolding c1_def [symmetric]
    by (simp add: header_def errorHandler_def example_codec_def example_constants_def
        new_client_def optional_get_def)
qed

section \<open>Claim C6: notify\<close>

text \<open>
  C6, as stated, fails for a call whose options carry a correlation id or a reply
  address: notify spreads the caller's options into the properties it publishes, as
  send does, so the message is published with both.
\<close>

theorem notify_publishes_callers_ids_counterexample:
  "pub_properties
     (last (published (snd (the
        (notify example_codec example_constants example_options ((\<le>) 2) (new_client ''replies'')
           ''sum'' (Num 7)
           (Some [''correlationId'' \<mapsto> Str ''mine'', ''replyTo'' \<mapsto> Str ''elsewhere''])
           1000 None))))) ''correlationId'' = Some (Str ''mine'')
   \<and> pub_properties
     (last (published (snd (the
        (notify example_codec example_constants example_options ((\<le>) 2) (new_client ''replies'')
           ''sum'' (Num 7)
           (Some [''correlationId'' \<mapsto> Str ''mine'', ''replyTo'' \<mapsto> Str ''elsewhere''])
           1000 None))))) ''replyTo'' = Some (Str ''elsewhere'')"
proof -
  have "initializationCheck 300 ((\<le>) 2) 0 0 = Some 600"
    by (simp add: initializationCheck.simps)
  then show ?thesis
    by (simp add: notify_def notify_body_def notify_properties_def example_constants_def
        example_codec_def client_debug_def new_client_def spread_def Let_def)
qed

text \<open>
  C6, amended. A notify that has passed the barrier publishes the serialized message
  once, to the configured exchange under the topic as routing key, with the
  properties \<^verbatim>\<open>appId\<close> and \<^verbatim>\<open>timestamp\<close> overridden and extended by the caller's
  options. Notify itself generates no correlation id and no reply address: the
  message carries one exactly when the caller's options do. It registers no listener,
  sets no timer and creates no promise of its own, so nothing waits for a reply; its
  result is how the publish call ends.
\<close>

theorem notify_publishes_once:
  assumes "isInitialized n" and "JSON_stringify cd msg = Some body"
  shows "\<exists>c'. notify cd K opts isInitialized c topic msg options now channel =
             Some ((case channel of None \<Rightarrow> Inr () | Some e \<Rightarrow> Inl e), c')
     \<and> published c' =
         published c @
           [\<lparr>pub_exchange = exchangeName opts, pub_routingKey = topic, pub_content = body,
             pub_properties =
               [''appId'' \<mapsto> serviceName opts, ''timestamp'' \<mapsto> Num now] ++ spread options\<rparr>]
     \<and> pub_properties (last (published c')) ''correlationId'' = spread options ''correlationId''
     \<and> pub_properties (last (published c')) ''replyTo'' = spread options ''replyTo''
     \<and> sendResponseEmitter c' = sendResponseEmitter c
     \<and> timers c' = timers c
     \<and> promises c' = promises c
     \<and> next_promise c' = next_promise c"
proof -
  have "initializationCheck (INITIALIZATION_STEP_DELAY K) isInitialized 0 0 =
      Some ((LEAST m. isInitialized m) * INITIALIZATION_STEP_DELAY K)"
    using assms(1) by (rule initializationCheck_first)
  then have "notify cd K opts isInitialized c topic msg options now channel =
      Some (notify_body cd opts c topic msg options now channel)"
    by (simp add: notify_def)
  with assms(2) show ?thesis
    by (cases channel)
      (auto simp: notify_body_def notify_properties_def client_debug_def Let_def map_add_def
        split: option.splits)
qed

theorem notify_publishes_once_witness:
  "fst (the (notify example_codec example_constants example_options (\<lambda>k. 2 \<le> k)
       (new_client ''replies'') ''sum'' (Num 7) None 1000 None)) = Inr ()
   \<and> pub_properties (last (published (snd (the
       (notify example_codec example_constants example_options (\<lambda>k. 2 \<le> k)
          (new_client ''replies'') ''sum'' (Num 7) None 1000 None))))) ''correlationId'' = None
   \<and> pub_properties (last (published (snd (the
       (notify example_codec example_constants example_options (\<lambda>k. 2 \<le> k)
          (new_client ''replies'') ''sum'' (Num 7) None 1000 None))))) ''replyTo'' = None
   \<and> sendResponseEmitter (snd (the
       (notify example_codec example_constants example_options (\<lambda>k. 2 \<le> k)
          (new_client ''replies'') ''sum'' (Num 7) None 1000 None))) = []"
proof -
  have init: "(\<lambda>k::nat. 2 \<le> k) 2" by simp
  have ser: "JSON_stringify example_codec (Num 7) = Some ''7''" by (simp add: example_codec_def)
  from init ser notify_publishes_once [where isInitialized = "\<lambda>k. 2 \<le> k" and n = 2
      and cd = example_codec and msg = "Num 7" and body = "''7''" and K = example_constants
      and opts = example_options and c = "new_client ''replies''" and topic = "''sum''"
      and options = None and now = 1000 and channel = None]
  obtain c' where
    "notify example_codec example_constants example_options (\<lambda>k. 2 \<le> k)
       (new_client ''replies'') ''sum'' (Num 7) None 1000 None = Some (Inr (), c')"
    "pub_properties (last (published c')) ''correlationId'' = spread None ''correlationId''"
    "pub_properties (last (published c')) ''replyTo'' = spread None ''replyTo''"
    "sendResponseEmitter c' = sendResponseEmitter (new_client ''replies'' :: jsval client)"
    by auto
  then show ?thesis by (simp add: spread_def new_client_def)
qed

section \<open>Claim C7: the initialization barrier\<close>

text \<open>
  C7. \<^verbatim>\<open>initializationCheck\<close> returns only from a read that finds the flag set, after
  one wait of \<^verbatim>\<open>INITIALIZATION_STEP_DELAY\<close> for each earlier read, all of which found it
  unset; once the flag is set at some read the call does return, from the first such
  read. While the flag is never set, the call never returns: send publishes nothing
  and leaves its promise pending, notify does not complete, and neither fails. Once
  the flag is set, send and notify publish the serialized message.
\<close>

theorem initialization_barrier:
  "(initializationCheck d isInitialized 0 0 = Some t
      \<longrightarrow> (\<exists>m. isInitialized m \<and> (\<forall>j<m. \<not> isInitialized j) \<and> t = m * d))
   \<and> (isInitialized n
      \<longrightarrow> initializationCheck d isInitialized 0 0 = Some ((LEAST m. isInitialized m) * d))
   \<and> ((\<forall>m. \<not> unset m)
      \<longrightarrow> initializationCheck d unset 0 0 = None
        \<and> published (snd (send cd K opts unset c topic msg options cid now channel)) = published c
        \<and> promises (snd (send cd K opts unset c topic msg options cid now channel))
            (fst (send cd K opts unset c topic msg options cid now channel)) = Pending
        \<and> notify cd K opts unset c topic msg options now channel = None)
   \<and> (isInitialized n \<and> JSON_stringify cd msg = Some body
      \<longrightarrow> published (snd (send cd K opts isInitialized c topic msg options cid now channel)) =
            published c @
              [\<lparr>pub_exchange = exchangeName opts, pub_routingKey = topic, pub_content = body,
                pub_properties = send_properties c opts cid now options\<rparr>]
        \<and> (\<exists>r c'. notify cd K opts isInitialized c topic msg options now channel = Some (r, c')
              \<and> published c' =
                  published c @
                    [\<lparr>pub_exchange = exchangeName opts, pub_routingKey = topic, pub_content = body,
                      pub_properties = notify_properties opts now options\<rparr>]))"
proof (intro conjI impI)
  assume "initializationCheck d isInitialized 0 0 = Some t"
  from initializationCheck_SomeD [OF this]
  show "\<exists>m. isInitialized m \<and> (\<forall>j<m. \<not> isInitialized j) \<and> t = m * d" by simp
next
  assume "isInitialized n"
  then show "initializationCheck d isInitialized 0 0 = Some ((LEAST m. isInitialized m) * d)"
    by (rule initializationCheck_first)
next
  assume "\<forall>m. \<not> unset m"
  then show "initializationCheck d unset 0 0 = None" by (rule initializationCheck_never)
next
  assume "\<forall>m. \<not> unset m"
  then have "initializationCheck (INITIALIZATION_STEP_DELAY K) unset 0 0 = None"
    by (rule initializationCheck_never)
  then show "published (snd (send cd K opts unset c topic msg options cid now channel)) = published c"
    by (simp add: send_def Let_def)
next
  assume "\<forall>m. \<not> unset m"
  then have "initializationCheck (INITIALIZATION_STEP_DELAY K) unset 0 0 = None"
    by (rule initializationCheck_never)
  then show "promises (snd (send cd K opts unset c topic msg options cid now channel))
      (fst (send cd K opts unset c topic msg options cid now channel)) = Pending"
    by (simp add: send_def Let_def)
next
  assume "\<forall>m. \<not> unset m"
  then have "initializationCheck (INITIALIZATION_STEP_DELAY K) unset 0 0 = None"
    by (rule initializationCheck_never)
  then show "notify cd K opts unset c topic msg options now channel = None"
    by (simp add: notify_def)
next
  assume a: "isInitialized n \<and> JSON_stringify cd msg = Some body"
  obtain p c1 where sent: "send cd K opts isInitialized c topic msg options cid now channel = (p, c1)"
    by (cases "send cd K opts isInitialized c topic msg options cid now channel")
  from a have "isInitialized n" by simp
  from send_facts(6) [OF this sent] a sent
  show "published (snd (send cd K opts isInitialized c topic msg options cid now channel)) =
      published c @
        [\<lparr>pub_exchange = exchangeName opts, pub_routingKey = topic, pub_content = body,
          pub_properties = send_properties c opts cid now options\<rparr>]"
    by simp
next
  assume a: "isInitialized n \<and> JSON_stringify cd msg = Some body"
  then have "initializationCheck (INITIALIZATION_STEP_DELAY K) isInitialized 0 0 =
      Some ((LEAST m. isInitialized m) * INITIALIZATION_STEP_DELAY K)"
    by (simp add: initializationCheck_first [of isInitialized n])
  then have "notify cd K opts isInitialized c topic msg options now channel =
      Some (notify_body cd opts c topic msg options now channel)"
    by (simp add: notify_def)
  with a show "\<exists>r c'. notify cd K opts isInitialized c topic msg options now channel = Some (r, c')
      \<and> published c' =
          published c @
            [\<lparr>pub_exchange = exchangeName opts, pub_routingKey = topic, pub_content = body,
              pub_properties = notify_properties opts now options\<rparr>]"
    by (cases channel) (simp_all add: notify_body_def client_debug_def Let_def)
qed

theorem initialization_barrier_witness:
  "initializationCheck 300 (\<lambda>k. 2 \<le> k) 0 0 = Some 600
   \<and> initializationCheck 300 (\<lambda>k. False) 0 0 = None
   \<and> notify example_codec example_constants example_options (\<lambda>k. False)
       (new_client ''replies'') ''sum'' (Num 7) None 1000 None = None
   \<and> published (snd (send example_codec example_constants example_options (\<lambda>k. False)
       (new_client ''replies'') ''sum'' (Num 7) None ''id-1'' 1000 None)) = []
   \<and> published (snd (send example_codec example_constants example_options (\<lambda>k. 2 \<le> k)
       (new_client ''replies'') ''sum'' (Num 7) None ''id-1'' 1000 None)) =
       [\<lparr>pub_exchange = ''exchange'', pub_routingKey = ''sum'', pub_content = ''7'',
         pub_properties = send_properties (new_client ''replies'') example_options ''id-1'' 1000 None\<rparr>]"
proof -
  have run: "initializationCheck 300 (\<lambda>k. 2 \<le> k) 0 0 = Some 600"
    by (simp add: initializationCheck.simps)
  have ser: "JSON_stringify example_codec (Num 7) = Some ''7''" by (simp add: example_codec_def)
  from initialization_barrier [of 300 "\<lambda>k. 2 \<le> k" 600 2 "\<lambda>k. False" example_codec
      example_constants example_options "new_client ''replies''" "''sum''" "Num 7" None "''id-1''"
      1000 None "''7''"] run ser
  show ?thesis by (simp add: new_client_def example_options_def)
qed

section \<open>Claim C8: re-attaching the reply-pipeline listeners\<close>

text \<open>
  C8, as stated, fails: \<^verbatim>\<open>attachEmitters\<close> is not idempotent. Two connect events with
  no disconnect event between them leave two listeners for an event kind.
\<close>

theorem attach_twice_duplicates_counterexample:
  "listenerCount (responseEmitter (connection_events new_supervisor [CONNECT_EVENT, CONNECT_EVENT]))
     Result_success = 2"
  by (simp add: connection_events_def new_supervisor_def attachEmitters_def emitter_on_def
      listenerCount_def listeners_def)

text \<open>
  C8, amended. After any run of connection events, each of the three event kinds has as
  many listeners as there were connect events since the last disconnect event, because
  attaching adds one listener per kind and only detaching removes any. So a connect
  event that follows a disconnect event leaves exactly one listener per kind, whatever
  happened before, and attaching twice in a row adds two.
\<close>

theorem attach_listener_count:
  "listenerCount (responseEmitter (connection_events new_supervisor evs)) k
     = length (takeWhile is_connect (rev evs))
   \<and> listenerCount
       (responseEmitter (connection_events s (evs @ [DISCONNECT_EVENT err, CONNECT_EVENT]))) k = 1
   \<and> listenerCount (responseEmitter (attachEmitters (attachEmitters s))) k
       = Suc (Suc (listenerCount (responseEmitter s) k))"
proof (intro conjI)
  show "listenerCount (responseEmitter (connection_events new_supervisor evs)) k
      = length (takeWhile is_connect (rev evs))"
  proof (cases "list_all is_connect evs")
    case True
    then have "\<forall>e\<in>set (rev evs). is_connect e"
      by (simp add: list_all_iff)
    then have tw: "takeWhile is_connect (rev evs) = rev evs"
      by (simp only: takeWhile_eq_all_conv)
    have "length (takeWhile is_connect (rev evs)) = length evs"
      by (subst tw) simp
    moreover have "listenerCount (responseEmitter new_supervisor) k = 0"
      by (simp add: new_supervisor_def listenerCount_def listeners_def)
    ultimately show ?thesis using True
      by (simp add: listenerCount_events)
  next
    case False
    then show ?thesis by (simp add: listenerCount_events)
  qed
next
  show "listenerCount
      (responseEmitter (connection_events s (evs @ [DISCONNECT_EVENT err, CONNECT_EVENT]))) k = 1"
    by (simp add: listenerCount_events)
next
  show "listenerCount (responseEmitter (attachEmitters (attachEmitters s))) k
      = Suc (Suc (listenerCount (responseEmitter s) k))"
    by (simp add: listenerCount_attach)
qed

section \<open>Claim C9: the order of resolution\<close>



section \<open>Claim C10: the caller's options override what send generates\<close>

text \<open>
  C10. The properties that send publishes are the four it generates (\<^verbatim>\<open>replyTo\<close>,
  \<^verbatim>\<open>appId\<close>, \<^verbatim>\<open>timestamp\<close>, \<^verbatim>\<open>correlationId\<close>) overridden by the caller's options:
  every key of the options is published with the caller's value, and a generated
  value is published only under a key the options do not have. The listener is
  registered under the generated id whatever the options say. So when the options
  carry a correlation id of their own, the request is delivered with that id, and a
  reply that carries it (and not the generated one) reaches no listener: the client is
  left as it was, the promise pending and the timer still set.
\<close>

theorem send_options_override:
  assumes "isInitialized n"
    and "listeners (sendResponseEmitter c) cid = []"
    and "JSON_stringify cd msg = Some body"
    and "send cd K opts isInitialized c topic msg options cid now channel = (p, c1)"
  shows "published c1 =
           published c @
             [\<lparr>pub_exchange = exchangeName opts, pub_routingKey = topic, pub_content = body,
               pub_properties =
                 [''replyTo'' \<mapsto> Str (replyQueue c), ''appId'' \<mapsto> serviceName opts,
                  ''timestamp'' \<mapsto> Num now, ''correlationId'' \<mapsto> Str cid] ++ spread options\<rparr>]
     \<and> (spread options k = Some x \<longrightarrow> pub_properties (last (published c1)) k = Some x)
     \<and> (spread options ''correlationId'' = None
          \<longrightarrow> pub_properties (last (published c1)) ''correlationId'' = Some (Str cid))
     \<and> (spread options ''replyTo'' = None
          \<longrightarrow> pub_properties (last (published c1)) ''replyTo'' = Some (Str (replyQueue c)))
     \<and> listeners (sendResponseEmitter c1) cid =
         [(True, \<lparr>w_timer = next_timer c, w_topic = topic, w_promise = p\<rparr>)]
     \<and> (spread options ''correlationId'' = Some own \<and> js_to_string own \<noteq> cid
          \<and> listeners (sendResponseEmitter c) (js_to_string own) = []
          \<and> correlationId answer = own
          \<longrightarrow> correlationId (delivered (last (published c1))) = own
              \<and> fst (reply_arrives cd K c1 answer) = c1
              \<and> promises c1 p = Pending
              \<and> timers c1 (next_timer c) \<noteq> None)"
proof -
  let ?w = "\<lparr>w_timer = next_timer c, w_topic = topic, w_promise = p\<rparr>"
  note facts = send_facts [OF assms(1) assms(4)]
  have pub: "published c1 =
      published c @
        [\<lparr>pub_exchange = exchangeName opts, pub_routingKey = topic, pub_content = body,
          pub_properties =
            [''replyTo'' \<mapsto> Str (replyQueue c), ''appId'' \<mapsto> serviceName opts,
             ''timestamp'' \<mapsto> Num now, ''correlationId'' \<mapsto> Str cid] ++ spread options\<rparr>]"
    using assms(3) by (simp add: facts(6) send_properties_def)
  have ls: "listeners (sendResponseEmitter c1) cid = [(True, ?w)]"
    using assms(2) by (simp add: facts(4) listeners_append listeners_single)
  have unmatched: "correlationId (delivered (last (published c1))) = own
      \<and> fst (reply_arrives cd K c1 answer) = c1
      \<and> promises c1 p = Pending \<and> timers c1 (next_timer c) \<noteq> None"
    if "spread options ''correlationId'' = Some own" and "js_to_string own \<noteq> cid"
      and "listeners (sendResponseEmitter c) (js_to_string own) = []"
      and "correlationId answer = own"
  proof -
    have "listeners (sendResponseEmitter c1) (js_to_string (correlationId answer)) = []"
      using that by (auto simp: facts(4) listeners_append listeners_single)
    then have "fst (reply_arrives cd K c1 answer) = c1" by (rule reply_to_nobody)
    moreover have "correlationId (delivered (last (published c1))) = own"
      using that(1) by (simp add: pub delivered_def map_add_def)
    ultimately show ?thesis by (simp add: facts(2) facts(3))
  qed
  from pub ls unmatched show ?thesis
    by (auto simp: map_add_def)
qed

theorem send_options_override_witness:
  "pub_properties
     (last (published
        (snd (send example_codec example_constants example_options (\<lambda>k. 2 \<le> k)
           (new_client ''replies'') ''sum'' (Num 7) (Some [''correlationId'' \<mapsto> Str ''mine''])
           ''id-1'' 1000 None)))) ''correlationId'' = Some (Str ''mine'')
   \<and> pub_properties
     (last (published
        (snd (send example_codec example_constants example_options (\<lambda>k. 2 \<le> k)
           (new_client ''replies'') ''sum'' (Num 7) (Some [''correlationId'' \<mapsto> Str ''mine''])
           ''id-1'' 1000 None)))) ''replyTo'' = Some (Str ''replies'')
   \<and> fst (reply_arrives example_codec example_constants
       (snd (send example_codec example_constants example_options (\<lambda>k. 2 \<le> k)
          (new_client ''replies'') ''sum'' (Num 7) (Some [''correlationId'' \<mapsto> Str ''mine''])
          ''id-1'' 1000 None))
       \<lparr>routingKey = ''replies'', content = ''42'', correlationId = Str ''mine'',
        replyTo = Undefined, headers = Map.empty\<rparr>)
     = snd (send example_codec example_constants example_options (\<lambda>k. 2 \<le> k)
          (new_client ''replies'') ''sum'' (Num 7) (Some [''correlationId'' \<mapsto> Str ''mine''])
          ''id-1'' 1000 None)
   \<and> promises
       (snd (send example_codec example_constants example_options (\<lambda>k. 2 \<le> k)
          (new_client ''replies'') ''sum'' (Num 7) (Some [''correlationId'' \<mapsto> Str ''mine''])
          ''id-1'' 1000 None)) 0 = Pending"
proof -
  define c1 where "c1 = snd (send example_codec example_constants example_options (\<lambda>k. 2 \<le> k)
      (new_client ''replies'') ''sum'' (Num 7) (Some [''correlationId'' \<mapsto> Str ''mine''])
      ''id-1'' 1000 None)"
  have init: "(\<lambda>k::nat. 2 \<le> k) 2" by simp
  have fresh: "listeners (sendResponseEmitter (new_client ''replies'' :: jsval client)) ''id-1'' = []"
    by (simp add: new_client_def listeners_def)
  have ser: "JSON_stringify example_codec (Num 7) = Some ''7''" by (simp add: example_codec_def)
  have sent: "send example_codec example_constants example_options (\<lambda>k. 2 \<le> k)
      (new_client ''replies'') ''sum'' (Num 7) (Some [''correlationId'' \<mapsto> Str ''mine''])
      ''id-1'' 1000 None = (0, c1)"
    by (simp add: c1_def prod_eq_iff send_after_barrier [of "\<lambda>k. 2 \<le> k" 2] new_client_def)
  from send_options_override [OF init fresh ser sent,
      where k = "''correlationId''" and x = "Str ''mine''" and own = "Str ''mine''"
      and answer = "\<lparr>routingKey = ''replies'', content = ''42'', correlationId = Str ''mine'',
        replyTo = Undefined, headers = Map.empty\<rparr>"]
  show ?thesis unfolding c1_def [symmetric]
    by (simp add: spread_def new_client_def listeners_def)
qed

end
